theory Spec2Isabelle
  imports Main "HOL-Library.Word" "HOL-Library.AList" "HOL-Library.Code_Target_Numeral"
begin

unbundle bit_operations_syntax

section \<open>SHA-256, as \<open>hashlib.sha256\<close> computes it\<close>

text \<open>The Merkle tree of \<open>backend/app/core/merkle.py\<close> hashes with
  \<open>hashlib.sha256(s.encode()).hexdigest()\<close>. The function is written out here (FIPS 180-4)
  on 32-bit words, so that every definition below is a closed, executable term.\<close>

type_synonym u32 = "32 word"

definition rotr :: "nat \<Rightarrow> u32 \<Rightarrow> u32" where
  "rotr n x = (drop_bit n x) OR (push_bit (32 - n) x)"

definition Ch :: "u32 \<Rightarrow> u32 \<Rightarrow> u32 \<Rightarrow> u32" where
  "Ch x y z = (x AND y) XOR (NOT x AND z)"

definition Maj :: "u32 \<Rightarrow> u32 \<Rightarrow> u32 \<Rightarrow> u32" where
  "Maj x y z = (x AND y) XOR (x AND z) XOR (y AND z)"

definition Sigma0 :: "u32 \<Rightarrow> u32" where
  "Sigma0 x = rotr 2 x XOR rotr 13 x XOR rotr 22 x"

definition Sigma1 :: "u32 \<Rightarrow> u32" where
  "Sigma1 x = rotr 6 x XOR rotr 11 x XOR rotr 25 x"

definition sigma0 :: "u32 \<Rightarrow> u32" where
  "sigma0 x = rotr 7 x XOR rotr 18 x XOR drop_bit 3 x"

definition sigma1 :: "u32 \<Rightarrow> u32" where
  "sigma1 x = rotr 17 x XOR rotr 19 x XOR drop_bit 10 x"

text \<open>The round constants (the first 32 bits of the fractional parts of the cube roots
  of the first 64 primes) and the initial state (the same of the square roots of the first
  8 primes), in decimal.\<close>

definition sha256_K :: "u32 list" where
  "sha256_K = [
    1116352408, 1899447441, 3049323471, 3921009573, 961987163, 1508970993, 2453635748, 2870763221,
    3624381080, 310598401, 607225278, 1426881987, 1925078388, 2162078206, 2614888103, 3248222580,
    3835390401, 4022224774, 264347078, 604807628, 770255983, 1249150122, 1555081692, 1996064986,
    2554220882, 2821834349, 2952996808, 3210313671, 3336571891, 3584528711, 113926993, 338241895,
    666307205, 773529912, 1294757372, 1396182291, 1695183700, 1986661051, 2177026350, 2456956037,
    2730485921, 2820302411, 3259730800, 3345764771, 3516065817, 3600352804, 4094571909, 275423344,
    430227734, 506948616, 659060556, 883997877, 958139571, 1322822218, 1537002063, 1747873779,
    1955562222, 2024104815, 2227730452, 2361852424, 2428436474, 2756734187, 3204031479, 3329325298]"

definition sha256_H0 :: "u32 list" where
  "sha256_H0 = [1779033703, 3144134277, 1013904242, 2773480762,
                1359893119, 2600822924, 528734635, 1541459225]"

text \<open>Padding: the byte 0x80, zero bytes up to 56 modulo 64, then the bit length on
  eight big-endian bytes.\<close>

definition be_bytes :: "nat \<Rightarrow> nat \<Rightarrow> nat list" where
  "be_bytes k n = map (\<lambda>i. (n div 256 ^ (k - 1 - i)) mod 256) [0..<k]"

definition sha256_pad :: "nat list \<Rightarrow> nat list" where
  "sha256_pad bs = bs @ [128] @ replicate ((119 - length bs mod 64) mod 64) 0
                      @ be_bytes 8 (8 * length bs)"

definition be_word :: "nat list \<Rightarrow> u32" where
  "be_word bs = of_nat (foldl (\<lambda>acc b. acc * 256 + b) 0 bs)"

fun chunks :: "nat \<Rightarrow> 'a list \<Rightarrow> 'a list list" where
  "chunks n [] = []"
| "chunks n (x # xs) = (if n = 0 then [x # xs] else take n (x # xs) # chunks n (drop n (x # xs)))"

primrec schedule :: "nat \<Rightarrow> u32 list \<Rightarrow> u32 list" where
  "schedule 0 w = w"
| "schedule (Suc n) w =
     schedule n (w @ [sigma1 (w ! (length w - 2)) + w ! (length w - 7)
                      + sigma0 (w ! (length w - 15)) + w ! (length w - 16)])"

definition round_step :: "u32 list \<Rightarrow> u32 \<times> u32 \<Rightarrow> u32 list" where
  "round_step s kw =
     (let t1 = s ! 7 + Sigma1 (s ! 4) + Ch (s ! 4) (s ! 5) (s ! 6) + fst kw + snd kw;
          t2 = Sigma0 (s ! 0) + Maj (s ! 0) (s ! 1) (s ! 2)
      in [t1 + t2, s ! 0, s ! 1, s ! 2, s ! 3 + t1, s ! 4, s ! 5, s ! 6])"

definition compress :: "u32 list \<Rightarrow> u32 list \<Rightarrow> u32 list" where
  "compress s block = map2 (+) s (foldl round_step s (zip sha256_K (schedule 48 block)))"

definition sha256 :: "nat list \<Rightarrow> u32 list" where
  "sha256 bs = foldl compress sha256_H0 (chunks 16 (map be_word (chunks 4 (sha256_pad bs))))"

definition hex_digit :: "nat \<Rightarrow> char" where
  "hex_digit n = ''0123456789abcdef'' ! (n mod 16)"

definition hex_word :: "u32 \<Rightarrow> string" where
  "hex_word w = map (\<lambda>i. hex_digit (unat (drop_bit (4 * (7 - i)) w))) [0..<8]"

definition hexdigest :: "u32 list \<Rightarrow> string" where
  "hexdigest ws = concat (map hex_word ws)"

text \<open>A Python \<open>str\<close> is modelled by the byte sequence of its UTF-8 encoding, one
  \<open>char\<close> per byte: concatenation and equality of strings are concatenation and equality
  of these sequences, and \<open>encode\<close> only reads the bytes. (A \<open>str\<close> that UTF-8 cannot
  encode, one with a lone surrogate, has no such sequence and is not a value of this type.)\<close>

definition encode :: "string \<Rightarrow> nat list" where
  "encode s = map of_char s"

text \<open>\<open>MerkleTree._hash_data\<close>: \<open>hashlib.sha256(data.encode()).hexdigest()\<close>.\<close>

definition hash_data :: "string \<Rightarrow> string" where
  "hash_data d = hexdigest (sha256 (encode d))"

section \<open>Data model\<close>

text \<open>The exceptions the code can raise: an index past the end of a list, a missing
  dictionary key, a missing attribute, a value that \<open>list.index\<close> does not find.\<close>

datatype error = IndexError | KeyError | AttributeError | ValueError

text \<open>\<open>MerkleNode\<close>: a hash, two optional children, and the data of a leaf.\<close>

datatype MerkleNode =
  MerkleNode (hash: string) (left: "MerkleNode option") (right: "MerkleNode option")
             (data: "string option")

definition is_leaf :: "MerkleNode \<Rightarrow> bool" where
  "is_leaf n = (left n = None \<and> right n = None)"

record MerkleProof =
  leaf_hash :: string
  leaf_index :: int
  proof_hashes :: "string list"
  proof_directions :: "string list"
  root_hash :: string

text \<open>\<open>_tree_cache\<close> is a Python dictionary from level number to node list. It is an
  association list here: \<open>AList.update\<close> overwrites a present key in place and appends a new
  one, as the insertion-ordered dictionary does, \<open>length\<close> is \<open>len\<close> and \<open>map_of\<close> is
  subscription.\<close>

type_synonym level_cache = "(nat \<times> MerkleNode list) list"

record MerkleTree =
  leaves :: "string list"
  leaf_hashes :: "string list"
  root :: "MerkleNode option"
  tree_cache :: level_cache

section \<open>\<open>MerkleProof.verify\<close>\<close>

text \<open>The loop \<open>for i, proof_hash in enumerate(self.proof_hashes)\<close>; the subscription
  \<open>self.proof_directions[i]\<close> raises \<open>IndexError\<close> past the end of the directions.\<close>

fun verify_loop :: "string list \<Rightarrow> nat \<Rightarrow> string list \<Rightarrow> string \<Rightarrow> error + string" where
  "verify_loop dirs i [] current_hash = Inr current_hash"
| "verify_loop dirs i (proof_hash # rest) current_hash =
     (if i < length dirs then
        (let direction = dirs ! i;
             combined = (if direction = ''left'' then proof_hash @ current_hash
                         else current_hash @ proof_hash)
         in verify_loop dirs (Suc i) rest (hash_data combined))
      else Inl IndexError)"

definition verify :: "MerkleProof \<Rightarrow> error + bool" where
  "verify p =
     (case verify_loop (proof_directions p) 0 (proof_hashes p) (leaf_hash p) of
        Inl e \<Rightarrow> Inl e
      | Inr current_hash \<Rightarrow> Inr (current_hash = root_hash p))"

section \<open>\<open>MerkleTree\<close>\<close>

definition MerkleTree_init :: MerkleTree where
  "MerkleTree_init = \<lparr>leaves = [], leaf_hashes = [], root = None, tree_cache = []\<rparr>"

definition add_leaf :: "MerkleTree \<Rightarrow> string \<Rightarrow> string \<times> MerkleTree" where
  "add_leaf t d =
     (let leaf_hash = hash_data d
      in (leaf_hash,
          t\<lparr>leaves := leaves t @ [d], leaf_hashes := leaf_hashes t @ [leaf_hash],
            tree_cache := [], root := None\<rparr>))"

text \<open>The inner loop of \<open>build_tree\<close>, \<open>for i in range(0, len(current_level), 2)\<close>, with
  \<open>next_level\<close> as the accumulator.\<close>

definition parent_of :: "MerkleNode \<Rightarrow> MerkleNode \<Rightarrow> MerkleNode" where
  "parent_of left_node right_node =
     (let combined_hash = hash left_node @ hash right_node;
          parent_hash = hash_data combined_hash
      in MerkleNode parent_hash (Some left_node) (Some right_node) None)"

function pair_nodes :: "MerkleNode list \<Rightarrow> nat \<Rightarrow> MerkleNode list \<Rightarrow> MerkleNode list" where
  "pair_nodes current_level i next_level =
     (if i < length current_level then
        (let left_node = current_level ! i;
             right_node = (if i + 1 < length current_level then current_level ! (i + 1)
                           else current_level ! i)
         in pair_nodes current_level (i + 2) (next_level @ [parent_of left_node right_node]))
      else next_level)"
  by pat_completeness auto
termination
  by (relation "measure (\<lambda>(current_level, i, next_level). length current_level - i)") auto

declare pair_nodes.simps [simp del]

text \<open>The same pairing by structural recursion, used to reason about \<open>pair_nodes\<close>.\<close>

fun pair_level :: "MerkleNode list \<Rightarrow> MerkleNode list" where
  "pair_level [] = []"
| "pair_level [l] = [parent_of l l]"
| "pair_level (l # r # rest) = parent_of l r # pair_level rest"

lemma pair_nodes_eq: "pair_nodes cur i acc = acc @ pair_level (drop i cur)"
proof (induction cur i acc rule: pair_nodes.induct)
  case (1 cur i acc)
  show ?case
  proof (cases "i < length cur")
    case False
    then show ?thesis by (simp add: pair_nodes.simps)
  next
    case True
    note lt = this
    have d1: "drop i cur = cur ! i # drop (Suc i) cur"
      using lt by (simp add: Cons_nth_drop_Suc)
    show ?thesis
    proof (cases "i + 1 < length cur")
      case True
      have d2: "drop (Suc i) cur = cur ! (i + 1) # drop (i + 2) cur"
        using True by (simp add: Cons_nth_drop_Suc)
      show ?thesis
        using "1.IH" [OF lt refl refl] lt True
        by (subst pair_nodes.simps) (simp add: d1 d2 Let_def)
    next
      case False
      have d2: "drop (Suc i) cur = []" "drop (i + 2) cur = []"
        using False by simp_all
      show ?thesis
        using "1.IH" [OF lt refl refl] lt False
        by (subst pair_nodes.simps) (simp add: d1 d2 Let_def)
    qed
  qed
qed

lemma length_pair_level: "length (pair_level xs) = (length xs + 1) div 2"
  by (induction xs rule: pair_level.induct) simp_all

lemma pair_nodes_0: "pair_nodes cur 0 [] = pair_level cur"
  by (simp add: pair_nodes_eq)

text \<open>The outer loop, \<open>while len(current_level) > 1\<close>: it returns the last level and the
  cache.\<close>

function build_loop :: "MerkleNode list \<Rightarrow> nat \<Rightarrow> level_cache \<Rightarrow> MerkleNode list \<times> level_cache" where
  "build_loop current_level level_index c =
     (if length current_level > 1 then
        (let next_level = pair_nodes current_level 0 [];
             level_index' = level_index + 1
         in build_loop next_level level_index' (AList.update level_index' next_level c))
      else (current_level, c))"
  by pat_completeness auto
termination
  by (relation "measure (\<lambda>(current_level, level_index, c). length current_level)")
     (auto simp: pair_nodes_0 length_pair_level)

declare build_loop.simps [simp del]

definition leaf_nodes :: "MerkleTree \<Rightarrow> MerkleNode list" where
  "leaf_nodes t =
     map (\<lambda>(leaf_hash, d). MerkleNode leaf_hash None None (Some d))
         (zip (leaf_hashes t) (leaves t))"

definition build_tree :: "MerkleTree \<Rightarrow> error + string \<times> MerkleTree" where
  "build_tree t =
     (if leaf_hashes t = [] then
        (let empty_hash = hash_data ''''
         in Inr (empty_hash, t\<lparr>root := Some (MerkleNode empty_hash None None None)\<rparr>))
      else if length (leaf_hashes t) = 1 then
        (if leaves t = [] then Inl IndexError
         else (let r = MerkleNode (leaf_hashes t ! 0) None None (Some (leaves t ! 0))
               in Inr (hash r, t\<lparr>root := Some r\<rparr>)))
      else
        (let current_level = leaf_nodes t;
             (final_level, c) = build_loop current_level 0 (AList.update 0 current_level (tree_cache t))
         in (case final_level of
               [] \<Rightarrow> Inl IndexError
             | r # _ \<Rightarrow> Inr (hash r, t\<lparr>root := Some r, tree_cache := c\<rparr>))))"

definition get_root :: "MerkleTree \<Rightarrow> error + string \<times> MerkleTree" where
  "get_root t =
     (case root t of
        None \<Rightarrow> build_tree t
      | Some r \<Rightarrow> Inr (hash r, t))"

text \<open>\<open>list.index\<close>: the position of the first occurrence, \<open>None\<close> where Python raises
  \<open>ValueError\<close>.\<close>

fun index_of :: "'a list \<Rightarrow> 'a \<Rightarrow> nat option" where
  "index_of [] x = None"
| "index_of (y # ys) x = (if y = x then Some 0 else map_option Suc (index_of ys x))"

text \<open>The loop of \<open>get_proof_by_index\<close>, \<open>for level in range(len(self._tree_cache) - 1)\<close>,
  with the two lists it appends to. The current index starts at a checked leaf index and
  is halved, so it is never negative.\<close>

fun proof_loop ::
  "level_cache \<Rightarrow> nat list \<Rightarrow> nat \<Rightarrow> string list \<Rightarrow> string list
     \<Rightarrow> error + string list \<times> string list" where
  "proof_loop c [] current_index hs ds = Inr (hs, ds)"
| "proof_loop c (level # rest) current_index hs ds =
     (case map_of c level of
        None \<Rightarrow> Inl KeyError
      | Some level_nodes \<Rightarrow>
          (let (sibling_index, direction) =
                 (if current_index mod 2 = 0 then (current_index + 1, ''right'')
                  else (current_index - 1, ''left''))
           in if sibling_index < length level_nodes then
                proof_loop c rest (current_index div 2)
                  (hs @ [hash (level_nodes ! sibling_index)]) (ds @ [direction])
              else if current_index < length level_nodes then
                proof_loop c rest (current_index div 2)
                  (hs @ [hash (level_nodes ! current_index)]) (ds @ [direction])
              else Inl IndexError))"

definition get_proof_by_index ::
  "MerkleTree \<Rightarrow> int \<Rightarrow> error + MerkleProof option \<times> MerkleTree" where
  "get_proof_by_index t i =
     (if i < 0 \<or> i \<ge> int (length (leaf_hashes t)) then Inr (None, t)
      else
        (case get_root t of
           Inl e \<Rightarrow> Inl e
         | Inr (r, t') \<Rightarrow>
             if length (leaf_hashes t') = 1 then
               Inr (Some \<lparr>leaf_hash = leaf_hashes t' ! 0, leaf_index = 0, proof_hashes = [],
                          proof_directions = [], root_hash = r\<rparr>, t')
             else
               (case proof_loop (tree_cache t') [0..<length (tree_cache t') - 1] (nat i) [] [] of
                  Inl e \<Rightarrow> Inl e
                | Inr (hs, ds) \<Rightarrow>
                    Inr (Some \<lparr>leaf_hash = leaf_hashes t' ! nat i, leaf_index = i,
                               proof_hashes = hs, proof_directions = ds, root_hash = r\<rparr>, t'))))"

definition get_proof ::
  "MerkleTree \<Rightarrow> string \<Rightarrow> error + MerkleProof option \<times> MerkleTree" where
  "get_proof t leaf_data =
     (case index_of (leaves t) leaf_data of
        None \<Rightarrow> Inr (None, t)
      | Some i \<Rightarrow> get_proof_by_index t (int i))"

definition verify_proof :: "MerkleTree \<Rightarrow> MerkleProof \<Rightarrow> error + bool \<times> MerkleTree" where
  "verify_proof t p =
     (case get_root t of
        Inl e \<Rightarrow> Inl e
      | Inr (expected_root, t') \<Rightarrow>
          if root_hash p = expected_root then
            (case verify p of Inl e \<Rightarrow> Inl e | Inr b \<Rightarrow> Inr (b, t'))
          else Inr (False, t'))"

record tree_info =
  total_leaves :: nat
  tree_height :: nat
  info_root_hash :: string
  is_built :: bool

definition get_tree_info :: "MerkleTree \<Rightarrow> error + tree_info \<times> MerkleTree" where
  "get_tree_info t =
     (let height = (if tree_cache t \<noteq> [] then length (tree_cache t)
                    else if leaf_hashes t \<noteq> [] then 1 else 0)
      in case get_root t of
           Inl e \<Rightarrow> Inl e
         | Inr (r, t') \<Rightarrow>
             Inr (\<lparr>total_leaves = length (leaf_hashes t), tree_height = height,
                   info_root_hash = r, is_built = (root t' \<noteq> None)\<rparr>, t'))"

text \<open>The exported dictionary. A key of a dictionary handed to \<open>deserialize\<close> may be
  missing, so every field is optional; \<open>serialize\<close> sets them all.\<close>

record tree_doc =
  doc_leaves :: "string list option"
  doc_leaf_hashes :: "string list option"
  doc_root_hash :: "string option"
  doc_tree_info :: "tree_info option"

definition serialize :: "MerkleTree \<Rightarrow> error + tree_doc \<times> MerkleTree" where
  "serialize t =
     (case get_root t of
        Inl e \<Rightarrow> Inl e
      | Inr (r, t1) \<Rightarrow>
          (case get_tree_info t1 of
             Inl e \<Rightarrow> Inl e
           | Inr (info, t2) \<Rightarrow>
               Inr (\<lparr>doc_leaves = Some (leaves t2), doc_leaf_hashes = Some (leaf_hashes t2),
                     doc_root_hash = Some r, doc_tree_info = Some info\<rparr>, t2)))"

definition deserialize :: "tree_doc \<Rightarrow> error + MerkleTree" where
  "deserialize d =
     (case doc_leaves d of
        None \<Rightarrow> Inl KeyError
      | Some ls \<Rightarrow>
          (case doc_leaf_hashes d of
             None \<Rightarrow> Inl KeyError
           | Some hs \<Rightarrow>
               (let tree = MerkleTree_init\<lparr>leaves := ls, leaf_hashes := hs\<rparr>
                in if leaf_hashes tree \<noteq> [] then
                     (case build_tree tree of
                        Inl e \<Rightarrow> Inl e
                      | Inr (r, tree') \<Rightarrow> Inr tree')
                   else Inr tree)))"

text \<open>The method \<open>MerkleTree.verify_evidence_inclusion\<close>. Its argument is any object: its
  attribute \<open>get_hash\<close> is either missing (as on \<open>ComplianceEvidence\<close> of
  \<open>compliance_engine.py\<close>, which defines \<open>compute_hash\<close> only) or a method that returns a
  hash. The class \<open>MerkleTree\<close> has no attribute \<open>generate_proof\<close>.\<close>

datatype evidence = ComplianceEvidence | HashedEvidence string

fun get_hash :: "evidence \<Rightarrow> error + string" where
  "get_hash ComplianceEvidence = Inl AttributeError"
| "get_hash (HashedEvidence h) = Inr h"

definition generate_proof :: "MerkleTree \<Rightarrow> nat \<Rightarrow> error + MerkleProof" where
  "generate_proof t i = Inl AttributeError"

definition MerkleTree_verify_evidence_inclusion :: "MerkleTree \<Rightarrow> evidence \<Rightarrow> error + bool" where
  "MerkleTree_verify_evidence_inclusion t ev =
     (case get_hash ev of
        Inl e \<Rightarrow> Inl e
      | Inr evidence_hash \<Rightarrow>
          if evidence_hash \<notin> set (leaf_hashes t) then Inr False
          else
            (case index_of (leaf_hashes t) evidence_hash of
               None \<Rightarrow> Inl ValueError
             | Some i \<Rightarrow>
                 (case generate_proof t i of
                    Inl e \<Rightarrow> Inl e
                  | Inr p \<Rightarrow> verify p)))"

section \<open>Module functions\<close>

definition create_evidence_tree :: "string list \<Rightarrow> error + MerkleTree" where
  "create_evidence_tree evidence_hashes =
     (let tree = foldl (\<lambda>t h. snd (add_leaf t h)) MerkleTree_init evidence_hashes
      in case build_tree tree of
           Inl e \<Rightarrow> Inl e
         | Inr (r, tree') \<Rightarrow> Inr tree')"






section \<open>Reference definitions\<close>

text \<open>The standalone check as the specification words it: start from the leaf hash; for
  each (sibling, direction) pair in order, hash sibling then current when the direction is
  \<open>left\<close>, current then sibling otherwise.\<close>

fun spec_fold :: "string \<Rightarrow> (string \<times> string) list \<Rightarrow> string" where
  "spec_fold current [] = current"
| "spec_fold current ((sibling, direction) # rest) =
     spec_fold (if direction = ''left'' then hash_data (sibling @ current)
                else hash_data (current @ sibling)) rest"

text \<open>The reference root: pair adjacent hashes left to right, an odd level's last hash
  with itself; the hash of the empty string for no leaf, the leaf's hash for one leaf.\<close>

fun spec_pair :: "string list \<Rightarrow> string list" where
  "spec_pair [] = []"
| "spec_pair [h] = [hash_data (h @ h)]"
| "spec_pair (l # r # rest) = hash_data (l @ r) # spec_pair rest"

lemma length_spec_pair: "length (spec_pair hs) = (length hs + 1) div 2"
  by (induction hs rule: spec_pair.induct) simp_all

function spec_root :: "string list \<Rightarrow> string" where
  "spec_root hs =
     (if hs = [] then hash_data ''''
      else if length hs = 1 then hd hs
      else spec_root (spec_pair hs))"
  by pat_completeness auto
termination
proof (relation "measure length")
  show "wf (measure length)" by simp
next
  fix hs :: "string list"
  assume "hs \<noteq> []" "length hs \<noteq> 1"
  then have "2 \<le> length hs" by (cases hs; cases "tl hs") auto
  then show "(spec_pair hs, hs) \<in> measure length"
    by (simp add: length_spec_pair)
qed

declare spec_root.simps [simp del]

text \<open>The level decomposition: level 0 is the given level, each next level pairs the
  nodes of the one below, and the last level has a single node (or none).\<close>

function level_decomposition :: "MerkleNode list \<Rightarrow> MerkleNode list list" where
  "level_decomposition lv =
     (if length lv > 1 then lv # level_decomposition (pair_level lv) else [lv])"
  by pat_completeness auto
termination
  by (relation "measure length") (auto simp: length_pair_level)

declare level_decomposition.simps [simp del]

text \<open>One step of the proof generator as the specification words it: for an even index
  the sibling is at \<open>index + 1\<close> with direction \<open>right\<close>, for an odd one at \<open>index - 1\<close>
  with direction \<open>left\<close>; a sibling index out of range gives the node's own hash.\<close>

definition sibling_step :: "MerkleNode list \<Rightarrow> nat \<Rightarrow> string \<times> string" where
  "sibling_step level index =
     (let (sibling, direction) = (if even index then (index + 1, ''right'')
                                  else (index - 1, ''left''))
      in (if sibling < length level then hash (level ! sibling) else hash (level ! index),
          direction))"

text \<open>One step for every level below the last, the index halved from level to level.\<close>

fun spec_path :: "MerkleNode list list \<Rightarrow> nat \<Rightarrow> (string \<times> string) list" where
  "spec_path (level # upper # rest) index =
     sibling_step level index # spec_path (upper # rest) (index div 2)"
| "spec_path _ index = []"

section \<open>States of a tree\<close>

text \<open>The loop of \<open>create_evidence_tree\<close>: the tree after \<open>add_leaf\<close> of each element.\<close>

definition tree_of :: "string list \<Rightarrow> MerkleTree" where
  "tree_of ds = foldl (\<lambda>t d. snd (add_leaf t d)) MerkleTree_init ds"

text \<open>The invariant of a tree: the leaf hashes are the hashes of the leaves; a non-empty
  cache is the numbered level decomposition of the leaf nodes; a cached root has the
  reference root as its hash, and the cache is filled when there are two leaves or more.\<close>

definition consistent :: "MerkleTree \<Rightarrow> bool" where
  "consistent t \<longleftrightarrow>
     leaf_hashes t = map hash_data (leaves t) \<and>
     (tree_cache t \<noteq> [] \<longrightarrow> tree_cache t = enumerate 0 (level_decomposition (leaf_nodes t))) \<and>
     (\<forall>r. root t = Some r \<longrightarrow>
        hash r = spec_root (leaf_hashes t) \<and>
        (2 \<le> length (leaf_hashes t) \<longrightarrow> tree_cache t \<noteq> []))"

text \<open>The states of a tree that owns its two lists: \<open>MerkleTree()\<close> and whatever the
  methods of that tree leave behind when they return. A tree whose lists another tree
  also holds changes when the other tree appends; those states are not in this set, and
  the section on shared lists below models them.\<close>

inductive reachable :: "MerkleTree \<Rightarrow> bool" where
  init: "reachable MerkleTree_init"
| add_leaf: "reachable t \<Longrightarrow> reachable (snd (add_leaf t d))"
| build_tree: "reachable t \<Longrightarrow> build_tree t = Inr (r, t') \<Longrightarrow> reachable t'"
| get_root: "reachable t \<Longrightarrow> get_root t = Inr (r, t') \<Longrightarrow> reachable t'"
| get_proof_by_index:
    "reachable t \<Longrightarrow> get_proof_by_index t i = Inr (p, t') \<Longrightarrow> reachable t'"
| get_proof: "reachable t \<Longrightarrow> get_proof t d = Inr (p, t') \<Longrightarrow> reachable t'"
| verify_proof: "reachable t \<Longrightarrow> verify_proof t q = Inr (b, t') \<Longrightarrow> reachable t'"
| get_tree_info: "reachable t \<Longrightarrow> get_tree_info t = Inr (info, t') \<Longrightarrow> reachable t'"
| serialize: "reachable t \<Longrightarrow> serialize t = Inr (doc, t') \<Longrightarrow> reachable t'"

text \<open>The proof the specification describes for leaf \<open>i\<close>: the sibling steps of every
  level below the root, against the reference root.\<close>

definition proof_of :: "MerkleTree \<Rightarrow> int \<Rightarrow> MerkleProof" where
  "proof_of t i =
     \<lparr>leaf_hash = leaf_hashes t ! nat i, leaf_index = i,
      proof_hashes = map fst (spec_path (level_decomposition (leaf_nodes t)) (nat i)),
      proof_directions = map snd (spec_path (level_decomposition (leaf_nodes t)) (nat i)),
      root_hash = spec_root (leaf_hashes t)\<rparr>"

section \<open>Trees that share their lists\<close>

text \<open>\<open>serialize\<close> puts \<open>self.leaves\<close> and \<open>self.leaf_hashes\<close> themselves into the
  document, and \<open>deserialize\<close> assigns the lists of the document to the new tree without
  copying them. A tree and the tree deserialized from its document then hold the same two
  list objects. Here the lists live in a store and a tree object holds their addresses;
  \<open>deref\<close> reads a tree object as the tree of the sections above, and every method that
  only reads the lists is the one defined there, run on that view.\<close>

type_synonym store = "string list list"

record TreeObj =
  leaves_at :: nat
  leaf_hashes_at :: nat
  root_of :: "MerkleNode option"
  cache_of :: level_cache

definition deref :: "store \<Rightarrow> TreeObj \<Rightarrow> MerkleTree" where
  "deref s obj =
     \<lparr>leaves = s ! leaves_at obj, leaf_hashes = s ! leaf_hashes_at obj,
      root = root_of obj, tree_cache = cache_of obj\<rparr>"

definition put_back :: "TreeObj \<Rightarrow> MerkleTree \<Rightarrow> TreeObj" where
  "put_back obj t = obj\<lparr>root_of := root t, cache_of := tree_cache t\<rparr>"

text \<open>\<open>MerkleTree()\<close> creates two fresh lists; \<open>add_leaf\<close> appends to the lists in place and
  resets the cache and the root of the tree it is called on, of no other.\<close>

definition MerkleTree_new :: "store \<Rightarrow> TreeObj \<times> store" where
  "MerkleTree_new s =
     (\<lparr>leaves_at = length s, leaf_hashes_at = length s + 1, root_of = None, cache_of = []\<rparr>,
      s @ [[], []])"

definition add_leaf_at :: "store \<Rightarrow> TreeObj \<Rightarrow> string \<Rightarrow> string \<times> TreeObj \<times> store" where
  "add_leaf_at s obj d =
     (let leaf_hash = hash_data d;
          s1 = s[leaves_at obj := s ! leaves_at obj @ [d]];
          s2 = s1[leaf_hashes_at obj := s1 ! leaf_hashes_at obj @ [leaf_hash]]
      in (leaf_hash, obj\<lparr>cache_of := [], root_of := None\<rparr>, s2))"

definition build_tree_at :: "store \<Rightarrow> TreeObj \<Rightarrow> error + string \<times> TreeObj" where
  "build_tree_at s obj =
     (case build_tree (deref s obj) of
        Inl e \<Rightarrow> Inl e
      | Inr (r, t') \<Rightarrow> Inr (r, put_back obj t'))"

definition get_root_at :: "store \<Rightarrow> TreeObj \<Rightarrow> error + string \<times> TreeObj" where
  "get_root_at s obj =
     (case get_root (deref s obj) of
        Inl e \<Rightarrow> Inl e
      | Inr (r, t') \<Rightarrow> Inr (r, put_back obj t'))"

text \<open>The document of \<open>serialize\<close> holds the two lists by reference; \<open>deserialize\<close>
  creates a tree (two fresh lists, dropped at once), binds the lists of the document to it
  and builds when there is a leaf hash.\<close>

record shared_doc =
  leaves_ref :: nat
  leaf_hashes_ref :: nat
  exported_root :: string
  exported_info :: tree_info

definition serialize_at :: "store \<Rightarrow> TreeObj \<Rightarrow> error + shared_doc \<times> TreeObj" where
  "serialize_at s obj =
     (case get_root (deref s obj) of
        Inl e \<Rightarrow> Inl e
      | Inr (r, t1) \<Rightarrow>
          (case get_tree_info t1 of
             Inl e \<Rightarrow> Inl e
           | Inr (info, t2) \<Rightarrow>
               Inr (\<lparr>leaves_ref = leaves_at obj, leaf_hashes_ref = leaf_hashes_at obj,
                     exported_root = r, exported_info = info\<rparr>, put_back obj t2)))"

definition deserialize_at :: "store \<Rightarrow> shared_doc \<Rightarrow> error + TreeObj \<times> store" where
  "deserialize_at s doc =
     (let (fresh, s') = MerkleTree_new s;
          tree = fresh\<lparr>leaves_at := leaves_ref doc, leaf_hashes_at := leaf_hashes_ref doc\<rparr>
      in if s' ! leaf_hashes_at tree \<noteq> [] then
           (case build_tree (deref s' tree) of
              Inl e \<Rightarrow> Inl e
            | Inr (r, t') \<Rightarrow> Inr (put_back tree t', s'))
         else Inr (tree, s'))"

text \<open>The run \<open>t = MerkleTree(); t.add_leaf("a"); t.add_leaf("b");
  t2 = MerkleTree.deserialize(t.serialize()); t2.add_leaf("c")\<close>: the two trees and
  the store at its end.\<close>

definition shared_run :: "TreeObj \<times> TreeObj \<times> store" where
  "shared_run =
     (let (t, s) = MerkleTree_new [];
          (h1, t, s) = add_leaf_at s t ''a'';
          (h2, t, s) = add_leaf_at s t ''b'';
          (doc, t) = projr (serialize_at s t);
          (t2, s) = projr (deserialize_at s doc);
          (h3, t2, s) = add_leaf_at s t2 ''c''
      in (t, t2, s))"

definition node_a :: MerkleNode where
  "node_a = MerkleNode (hash_data ''a'') None None (Some ''a'')"

definition node_b :: MerkleNode where
  "node_b = MerkleNode (hash_data ''b'') None None (Some ''b'')"

definition first_tree :: MerkleTree where
  "first_tree = deref (snd (snd shared_run)) (fst shared_run)"

section \<open>The builder and the proof generator\<close>

lemma spec_root_Nil: "spec_root [] = hash_data ''''"
  by (simp add: spec_root.simps)

lemma spec_root_single: "spec_root [h] = h"
  by (simp add: spec_root.simps)

lemma spec_root_many: "2 \<le> length hs \<Longrightarrow> spec_root hs = spec_root (spec_pair hs)"
  by (subst spec_root.simps) auto

lemma hash_pair_level: "map hash (pair_level ns) = spec_pair (map hash ns)"
  by (induction ns rule: pair_level.induct) (simp_all add: parent_of_def Let_def)

lemma decomp_many:
  "1 < length lv \<Longrightarrow> level_decomposition lv = lv # level_decomposition (pair_level lv)"
  by (subst level_decomposition.simps) simp

lemma decomp_few: "length lv \<le> 1 \<Longrightarrow> level_decomposition lv = [lv]"
  by (subst level_decomposition.simps) simp

lemma decomp_Cons: "level_decomposition lv = lv # tl (level_decomposition lv)"
  by (cases "1 < length lv") (simp_all add: decomp_many decomp_few)

lemma decomp_nonempty: "level_decomposition lv \<noteq> []"
  by (subst level_decomposition.simps) simp

lemma top_level:
  "cur \<noteq> [] \<Longrightarrow>
   \<exists>r. last (level_decomposition cur) = [r] \<and> hash r = spec_root (map hash cur)"
proof (induction cur rule: level_decomposition.induct)
  case (1 lv)
  show ?case
  proof (cases "1 < length lv")
    case True
    then have ne: "pair_level lv \<noteq> []"
      using length_pair_level [of lv] by (cases "pair_level lv") auto
    from "1.IH" [OF True ne] obtain r where
      r: "last (level_decomposition (pair_level lv)) = [r]"
         "hash r = spec_root (map hash (pair_level lv))" by blast
    have "spec_root (map hash lv) = spec_root (spec_pair (map hash lv))"
      using True by (intro spec_root_many) simp
    with r show ?thesis
      using True by (simp add: decomp_many decomp_nonempty hash_pair_level)
  next
    case False
    with "1.prems" obtain r where "lv = [r]"
      by (cases lv) auto
    then show ?thesis by (simp add: decomp_few spec_root_single)
  qed
qed

lemma build_loop_fst: "fst (build_loop cur li c) = last (level_decomposition cur)"
proof (induction cur li c rule: build_loop.induct)
  case (1 cur li c)
  show ?case
  proof (cases "1 < length cur")
    case True
    from "1.IH" [OF True refl refl] True show ?thesis
      by (subst build_loop.simps)
         (simp add: pair_nodes_0 decomp_many decomp_nonempty Let_def)
  next
    case False
    then show ?thesis
      by (subst build_loop.simps) (simp add: decomp_few)
  qed
qed

lemma update_fresh: "k \<notin> fst ` set c \<Longrightarrow> AList.update k v c = c @ [(k, v)]"
  by (induction c) auto

lemma build_loop_snd_fresh:
  "map fst c = [0..<Suc li] \<Longrightarrow>
   snd (build_loop cur li c) = c @ enumerate (Suc li) (tl (level_decomposition cur))"
proof (induction cur li c rule: build_loop.induct)
  case (1 cur li c)
  show ?case
  proof (cases "1 < length cur")
    case True
    let ?next = "pair_level cur"
    have "Suc li \<notin> set (map fst c)" using "1.prems" by simp
    then have up: "AList.update (Suc li) ?next c = c @ [(Suc li, ?next)]"
      by (intro update_fresh) simp
    have keys: "map fst (c @ [(Suc li, ?next)]) = [0..<Suc (Suc li)]"
      using "1.prems" by simp
    have ih: "snd (build_loop ?next (Suc li) (c @ [(Suc li, ?next)])) =
              (c @ [(Suc li, ?next)]) @ enumerate (Suc (Suc li)) (tl (level_decomposition ?next))"
      using "1.IH" [OF True refl refl] keys by (simp add: pair_nodes_0 up)
    have tl: "tl (level_decomposition cur) = ?next # tl (level_decomposition ?next)"
      using True decomp_Cons [of ?next] by (simp add: decomp_many)
    show ?thesis
      using True ih
      by (subst build_loop.simps) (simp add: pair_nodes_0 up tl Let_def)
  next
    case False
    then show ?thesis
      by (subst build_loop.simps) (simp add: decomp_few)
  qed
qed

lemma build_loop_snd_again:
  "\<forall>j < length (tl (level_decomposition cur)).
      map_of c (Suc li + j) = Some (tl (level_decomposition cur) ! j) \<Longrightarrow>
   snd (build_loop cur li c) = c"
proof (induction cur li c rule: build_loop.induct)
  case (1 cur li c)
  show ?case
  proof (cases "1 < length cur")
    case True
    let ?next = "pair_level cur"
    have tl: "tl (level_decomposition cur) = ?next # tl (level_decomposition ?next)"
      using True decomp_Cons [of ?next] by (simp add: decomp_many)
    have "0 < length (tl (level_decomposition cur))" by (simp add: tl)
    with "1.prems" have "map_of c (Suc li + 0) = Some (tl (level_decomposition cur) ! 0)"
      by blast
    then have up: "AList.update (Suc li) ?next c = c"
      by (intro update_triv) (simp add: tl)
    have shifted: "\<forall>j < length (tl (level_decomposition ?next)).
        map_of c (Suc (Suc li) + j) = Some (tl (level_decomposition ?next) ! j)"
    proof (intro allI impI)
      fix j assume j: "j < length (tl (level_decomposition ?next))"
      then have "Suc j < length (tl (level_decomposition cur))" by (simp add: tl)
      with "1.prems" have
        "map_of c (Suc li + Suc j) = Some (tl (level_decomposition cur) ! Suc j)"
        by blast
      then show "map_of c (Suc (Suc li) + j) = Some (tl (level_decomposition ?next) ! j)"
        by (simp add: tl)
    qed
    have "snd (build_loop ?next (Suc li) c) = c"
      using "1.IH" [OF True refl refl] shifted by (simp add: pair_nodes_0 up)
    then show ?thesis
      using True by (subst build_loop.simps) (simp add: pair_nodes_0 up Let_def)
  next
    case False
    then show ?thesis
      by (subst build_loop.simps) simp
  qed
qed

lemma map_of_enumerate:
  "j < length xs \<Longrightarrow> map_of (enumerate n xs) (n + j) = Some (xs ! j)"
proof (induction xs arbitrary: n j)
  case Nil
  then show ?case by simp
next
  case (Cons x xs)
  show ?case
  proof (cases j)
    case 0
    then show ?thesis by simp
  next
    case (Suc k)
    with Cons.prems have "k < length xs" by simp
    from Cons.IH [OF this, of "Suc n"] show ?thesis
      using Suc by simp
  qed
qed


lemma pair_level_nth:
  "2 * j < length xs \<Longrightarrow>
   pair_level xs ! j =
     parent_of (xs ! (2 * j)) (if 2 * j + 1 < length xs then xs ! (2 * j + 1) else xs ! (2 * j))"
proof (induction xs arbitrary: j rule: pair_level.induct)
  case 1
  then show ?case by simp
next
  case (2 l)
  then show ?case by simp
next
  case (3 l r rest)
  show ?case
  proof (cases j)
    case 0
    then show ?thesis by simp
  next
    case (Suc k)
    with "3.prems" have "2 * k < length rest" by simp
    from "3.IH" [OF this] show ?thesis using Suc by simp
  qed
qed

lemma climb:
  assumes "ci < length cur"
  shows "spec_fold (hash (cur ! ci)) [sibling_step cur ci] = hash (pair_level cur ! (ci div 2))"
proof (cases "even ci")
  case True
  then have ci: "2 * (ci div 2) = ci" by simp
  have "2 * (ci div 2) < length cur" using assms ci by simp
  from pair_level_nth [OF this] show ?thesis
    using True assms by (simp add: ci sibling_step_def parent_of_def Let_def)
next
  case False
  then have ci: "2 * (ci div 2) + 1 = ci" by (simp add: odd_two_times_div_two_succ)
  then have c2: "2 * (ci div 2) = ci - 1" by arith
  have lt: "ci - 1 < length cur" using assms by arith
  have "2 * (ci div 2) < length cur" using assms ci by arith
  from pair_level_nth [OF this] show ?thesis
    using False assms ci lt by (simp add: c2 sibling_step_def parent_of_def Let_def)
qed

lemma spec_path_many:
  assumes "1 < length cur"
  shows "spec_path (level_decomposition cur) ci =
           sibling_step cur ci # spec_path (level_decomposition (pair_level cur)) (ci div 2)"
proof -
  obtain rest where r: "level_decomposition (pair_level cur) = pair_level cur # rest"
    using decomp_Cons [of "pair_level cur"] by blast
  show ?thesis using assms by (simp add: decomp_many r)
qed

lemma half_in_range: "ci < length cur \<Longrightarrow> ci div 2 < length (pair_level cur)"
  by (simp add: length_pair_level)

lemma fold_path:
  "ci < length cur \<Longrightarrow>
   spec_fold (hash (cur ! ci)) (spec_path (level_decomposition cur) ci) = spec_root (map hash cur)"
proof (induction cur arbitrary: ci rule: level_decomposition.induct)
  case (1 lv)
  show ?case
  proof (cases "1 < length lv")
    case True
    have root: "spec_root (map hash lv) = spec_root (map hash (pair_level lv))"
      using True by (simp add: spec_root_many hash_pair_level)
    have step: "spec_fold (hash (lv ! ci)) [sibling_step lv ci] = hash (pair_level lv ! (ci div 2))"
      using "1.prems" by (rule climb)
    from "1.IH" [OF True half_in_range [OF "1.prems"]] step show ?thesis
      by (cases "sibling_step lv ci") (simp add: spec_path_many [OF True] root)
  next
    case False
    with "1.prems" obtain r where "lv = [r]" "ci = 0"
      by (cases lv) auto
    then show ?thesis by (simp add: decomp_few spec_root_single)
  qed
qed

lemma proof_loop_step:
  "map_of c level = Some lv \<Longrightarrow> ci < length lv \<Longrightarrow>
   proof_loop c (level # rest) ci hs ds =
     proof_loop c rest (ci div 2) (hs @ [fst (sibling_step lv ci)]) (ds @ [snd (sibling_step lv ci)])"
  by (auto simp: sibling_step_def Let_def even_iff_mod_2_eq_zero)

lemma proof_loop_path:
  "\<forall>j < length (level_decomposition cur).
      map_of c (li + j) = Some (level_decomposition cur ! j) \<Longrightarrow>
   ci < length cur \<Longrightarrow>
   proof_loop c [li..<li + (length (level_decomposition cur) - 1)] ci hs ds =
     Inr (hs @ map fst (spec_path (level_decomposition cur) ci),
          ds @ map snd (spec_path (level_decomposition cur) ci))"
proof (induction cur arbitrary: li ci hs ds rule: level_decomposition.induct)
  case (1 lv)
  show ?case
  proof (cases "1 < length lv")
    case True
    let ?next = "pair_level lv"
    let ?n = "length (level_decomposition ?next)"
    have n: "0 < ?n" using decomp_nonempty [of ?next] by simp
    have len: "length (level_decomposition lv) - 1 = ?n"
      using True by (simp add: decomp_many)
    have e: "Suc li + (?n - 1) = li + ?n" using n by arith
    have "li < li + ?n" using n by simp
    then have upt: "[li..<li + ?n] = li # [Suc li..<Suc li + (?n - 1)]"
      unfolding e by (rule upt_conv_Cons)
    have "0 < length (level_decomposition lv)" using True by (simp add: decomp_many)
    with "1.prems"(1) have "map_of c (li + 0) = Some (level_decomposition lv ! 0)" by blast
    then have here: "map_of c li = Some lv" using True by (simp add: decomp_many)
    have shifted: "\<forall>j < ?n. map_of c (Suc li + j) = Some (level_decomposition ?next ! j)"
    proof (intro allI impI)
      fix j assume "j < ?n"
      then have "Suc j < length (level_decomposition lv)" using True by (simp add: decomp_many)
      with "1.prems"(1) have "map_of c (li + Suc j) = Some (level_decomposition lv ! Suc j)"
        by blast
      then show "map_of c (Suc li + j) = Some (level_decomposition ?next ! j)"
        using True by (simp add: decomp_many)
    qed
    let ?st = "sibling_step lv ci"
    let ?path = "spec_path (level_decomposition ?next) (ci div 2)"
    have "proof_loop c [li..<li + (length (level_decomposition lv) - 1)] ci hs ds =
          proof_loop c (li # [Suc li..<Suc li + (?n - 1)]) ci hs ds"
      by (simp only: len upt)
    also have "\<dots> = proof_loop c [Suc li..<Suc li + (?n - 1)] (ci div 2)
                        (hs @ [fst ?st]) (ds @ [snd ?st])"
      by (rule proof_loop_step [OF here "1.prems"(2)])
    also have "\<dots> = Inr ((hs @ [fst ?st]) @ map fst ?path, (ds @ [snd ?st]) @ map snd ?path)"
      by (rule "1.IH" [OF True shifted half_in_range [OF "1.prems"(2)]])
    finally show ?thesis
      by (simp add: spec_path_many [OF True])
  next
    case False
    then show ?thesis by (simp add: decomp_few)
  qed
qed

section \<open>The verifier\<close>

lemma verify_loop_fold:
  "i + length hs \<le> length dirs \<Longrightarrow>
   verify_loop dirs i hs cur = Inr (spec_fold cur (zip hs (drop i dirs)))"
proof (induction hs arbitrary: i cur)
  case Nil
  then show ?case by simp
next
  case (Cons h hs)
  then have lt: "i < length dirs" by simp
  have d: "drop i dirs = dirs ! i # drop (Suc i) dirs"
    using lt by (simp add: Cons_nth_drop_Suc)
  from Cons.prems have "Suc i + length hs \<le> length dirs" by simp
  from Cons.IH [OF this] show ?case
    using lt by (simp add: d Let_def)
qed

lemma verify_loop_short:
  "hs \<noteq> [] \<Longrightarrow> length dirs < i + length hs \<Longrightarrow>
   verify_loop dirs i hs cur = Inl IndexError"
proof (induction hs arbitrary: i cur)
  case Nil
  then show ?case by simp
next
  case (Cons h hs)
  show ?case
  proof (cases "i < length dirs")
    case False
    then show ?thesis by simp
  next
    case True
    with Cons.prems have "hs \<noteq> []" "length dirs < Suc i + length hs" by auto
    from Cons.IH [OF this] show ?thesis using True by (simp add: Let_def)
  qed
qed

lemma verify_eq:
  "length (proof_hashes p) \<le> length (proof_directions p) \<Longrightarrow>
   verify p = Inr (spec_fold (leaf_hash p) (zip (proof_hashes p) (proof_directions p))
                   = root_hash p)"
  by (simp add: verify_def verify_loop_fold)

lemma verify_raises:
  "length (proof_directions p) < length (proof_hashes p) \<Longrightarrow> verify p = Inl IndexError"
  by (cases "proof_hashes p = []") (simp_all add: verify_def verify_loop_short)

lemma get_root_init:
  "get_root MerkleTree_init =
     Inr (hash_data '''',
          MerkleTree_init\<lparr>root := Some (MerkleNode (hash_data '''') None None None)\<rparr>)"
  by (simp add: get_root_def build_tree_def MerkleTree_init_def Let_def)

lemma index_of_None: "index_of xs x = None \<longleftrightarrow> x \<notin> set xs"
  by (induction xs) auto

section \<open>The invariant\<close>

lemma hash_leaf_nodes:
  "length (leaves t) = length (leaf_hashes t) \<Longrightarrow> map hash (leaf_nodes t) = leaf_hashes t"
  by (simp add: leaf_nodes_def comp_def case_prod_beta map_fst_zip [unfolded comp_def])

lemma length_leaf_nodes:
  "length (leaves t) = length (leaf_hashes t) \<Longrightarrow> length (leaf_nodes t) = length (leaf_hashes t)"
  by (simp add: leaf_nodes_def)

lemma enumerate_eq_Nil [simp]: "enumerate n xs = [] \<longleftrightarrow> xs = []"
  by (cases xs) simp_all

lemma build_cache:
  assumes "c = [] \<or> c = enumerate 0 (level_decomposition L0)"
  shows "snd (build_loop L0 0 (AList.update 0 L0 c)) = enumerate 0 (level_decomposition L0)"
proof -
  let ?ld = "level_decomposition L0"
  have ld: "?ld = L0 # tl ?ld" by (rule decomp_Cons)
  from assms show ?thesis
  proof
    assume "c = []"
    then have "snd (build_loop L0 0 (AList.update 0 L0 c)) = [(0, L0)] @ enumerate (Suc 0) (tl ?ld)"
      by (simp add: build_loop_snd_fresh)
    also have "\<dots> = enumerate 0 (L0 # tl ?ld)" by simp
    finally show ?thesis using ld by simp
  next
    assume c: "c = enumerate 0 ?ld"
    have at: "map_of c (0 + j) = Some (?ld ! j)" if "j < length ?ld" for j
      unfolding c using that by (rule map_of_enumerate)
    have "0 < length ?ld" using decomp_nonempty [of L0] by simp
    from at [OF this] have "map_of c 0 = Some (?ld ! 0)" by simp
    moreover have "?ld ! 0 = L0" by (subst ld) simp
    ultimately have "map_of c 0 = Some L0" by simp
    then have up: "AList.update 0 L0 c = c" by (rule update_triv)
    have "\<forall>j < length (tl ?ld). map_of c (Suc 0 + j) = Some (tl ?ld ! j)"
    proof (intro allI impI)
      fix j assume j: "j < length (tl ?ld)"
      then have "Suc j < length ?ld" by simp
      from at [OF this] show "map_of c (Suc 0 + j) = Some (tl ?ld ! j)"
        using j by (simp add: nth_tl)
    qed
    then have "snd (build_loop L0 0 c) = c" by (rule build_loop_snd_again)
    then have "snd (build_loop L0 0 (AList.update 0 L0 c)) = c" by (simp only: up)
    with c show ?thesis by simp
  qed
qed

lemma leaf_nodes_update [simp]:
  "leaf_nodes (t\<lparr>root := x\<rparr>) = leaf_nodes t"
  "leaf_nodes (t\<lparr>tree_cache := y\<rparr>) = leaf_nodes t"
  by (simp_all add: leaf_nodes_def)

lemma consistent_rootI:
  "consistent t \<Longrightarrow> hash r = spec_root (leaf_hashes t) \<Longrightarrow>
   (2 \<le> length (leaf_hashes t) \<longrightarrow> tree_cache t \<noteq> []) \<Longrightarrow>
   consistent (t\<lparr>root := Some r\<rparr>)"
  by (simp add: consistent_def)

lemma build_tree_consistent:
  assumes "consistent t"
  shows "\<exists>t'. build_tree t = Inr (spec_root (leaf_hashes t), t') \<and> consistent t'
              \<and> leaves t' = leaves t \<and> leaf_hashes t' = leaf_hashes t \<and> root t' \<noteq> None"
proof -
  from assms have lh: "leaf_hashes t = map hash_data (leaves t)"
    by (simp add: consistent_def)
  then have len: "length (leaves t) = length (leaf_hashes t)" by simp
  consider "leaf_hashes t = []" | "length (leaf_hashes t) = 1" | "2 \<le> length (leaf_hashes t)"
    by (cases "leaf_hashes t"; cases "tl (leaf_hashes t)") auto
  then show ?thesis
  proof cases
    case 1
    let ?r = "MerkleNode (hash_data '''') None None None"
    have "consistent (t\<lparr>root := Some ?r\<rparr>)"
      using assms 1 by (intro consistent_rootI) (simp_all add: spec_root_Nil)
    moreover have "build_tree t = Inr (hash_data '''', t\<lparr>root := Some ?r\<rparr>)"
      using 1 by (simp add: build_tree_def Let_def)
    ultimately show ?thesis using 1 by (simp add: spec_root_Nil)
  next
    case 2
    then obtain h where h: "leaf_hashes t = [h]"
      by (cases "leaf_hashes t") auto
    with len have ne: "leaves t \<noteq> []" by auto
    let ?r = "MerkleNode h None None (Some (leaves t ! 0))"
    have "consistent (t\<lparr>root := Some ?r\<rparr>)"
      using assms h by (intro consistent_rootI) (simp_all add: spec_root_single)
    moreover have "build_tree t = Inr (h, t\<lparr>root := Some ?r\<rparr>)"
      using h ne by (simp add: build_tree_def Let_def)
    ultimately show ?thesis using h by (simp add: spec_root_single)
  next
    case 3
    let ?L0 = "leaf_nodes t"
    have L0: "?L0 \<noteq> []" using 3 length_leaf_nodes [OF len] by auto
    from top_level [OF L0] obtain r where
      r: "last (level_decomposition ?L0) = [r]" "hash r = spec_root (leaf_hashes t)"
      by (auto simp: hash_leaf_nodes [OF len])
    from assms have "tree_cache t = [] \<or> tree_cache t = enumerate 0 (level_decomposition ?L0)"
      by (auto simp: consistent_def)
    from build_cache [OF this]
    have c: "snd (build_loop ?L0 0 (AList.update 0 ?L0 (tree_cache t))) =
             enumerate 0 (level_decomposition ?L0)" .
    have f: "fst (build_loop ?L0 0 (AList.update 0 ?L0 (tree_cache t))) = [r]"
      by (simp add: build_loop_fst r)
    have ne: "leaf_hashes t \<noteq> []" "length (leaf_hashes t) \<noteq> 1" using 3 by auto
    have "build_tree t =
            Inr (hash r, t\<lparr>root := Some r, tree_cache := enumerate 0 (level_decomposition ?L0)\<rparr>)"
      using ne by (simp add: build_tree_def Let_def case_prod_beta c f)
    moreover have "consistent (t\<lparr>root := Some r,
                       tree_cache := enumerate 0 (level_decomposition ?L0)\<rparr>)"
      using assms r decomp_nonempty [of ?L0]
      by (simp add: consistent_def)
    ultimately show ?thesis using r by simp
  qed
qed

lemma get_root_consistent:
  assumes "consistent t"
  shows "\<exists>t'. get_root t = Inr (spec_root (leaf_hashes t), t') \<and> consistent t'
              \<and> leaves t' = leaves t \<and> leaf_hashes t' = leaf_hashes t \<and> root t' \<noteq> None"
proof (cases "root t")
  case None
  with build_tree_consistent [OF assms] show ?thesis
    by (simp add: get_root_def)
next
  case (Some r)
  with assms show ?thesis
    by (simp add: get_root_def consistent_def)
qed

lemma leaf_nodes_cong:
  "leaves t' = leaves t \<Longrightarrow> leaf_hashes t' = leaf_hashes t \<Longrightarrow> leaf_nodes t' = leaf_nodes t"
  by (simp add: leaf_nodes_def)

lemma hash_leaf_nodes_nth:
  "length (leaves t) = length (leaf_hashes t) \<Longrightarrow> k < length (leaf_hashes t) \<Longrightarrow>
   hash (leaf_nodes t ! k) = leaf_hashes t ! k"
  by (simp add: leaf_nodes_def)

lemma spec_path_single: "length lv \<le> 1 \<Longrightarrow> spec_path (level_decomposition lv) k = []"
  by (simp add: decomp_few)

lemma get_proof_by_index_consistent:
  assumes "consistent t" "0 \<le> i" "i < int (length (leaf_hashes t))"
  shows "\<exists>t'. get_proof_by_index t i = Inr (Some (proof_of t i), t') \<and> consistent t'
              \<and> leaves t' = leaves t \<and> leaf_hashes t' = leaf_hashes t \<and> root t' \<noteq> None"
proof -
  from get_root_consistent [OF assms(1)] obtain t' where
    t': "get_root t = Inr (spec_root (leaf_hashes t), t')" "consistent t'"
        "leaves t' = leaves t" "leaf_hashes t' = leaf_hashes t" "root t' \<noteq> None"
    by blast
  from assms(1) have len: "length (leaves t) = length (leaf_hashes t)"
    by (simp add: consistent_def)
  have inr: "\<not> (i < 0 \<or> int (length (leaf_hashes t)) \<le> i)" using assms by simp
  let ?L0 = "leaf_nodes t"
  show ?thesis
  proof (cases "length (leaf_hashes t) = 1")
    case True
    with assms have i: "i = 0" by simp
    have "spec_path (level_decomposition ?L0) (nat i) = []"
      using True length_leaf_nodes [OF len] by (intro spec_path_single) simp
    then have "get_proof_by_index t i = Inr (Some (proof_of t i), t')"
      using True inr t' i by (simp add: get_proof_by_index_def proof_of_def)
    with t' show ?thesis by blast
  next
    case False
    with assms have two: "2 \<le> length (leaf_hashes t)" by simp
    from t'(5) obtain r where r: "root t' = Some r" by blast
    from t'(2) r two t'(4) have "tree_cache t' = enumerate 0 (level_decomposition (leaf_nodes t'))"
      by (simp add: consistent_def)
    then have c: "tree_cache t' = enumerate 0 (level_decomposition ?L0)"
      by (simp add: leaf_nodes_cong [OF t'(3) t'(4)])
    have ci: "nat i < length ?L0"
      using assms length_leaf_nodes [OF len] by simp
    have "\<forall>j < length (level_decomposition ?L0).
            map_of (tree_cache t') (0 + j) = Some (level_decomposition ?L0 ! j)"
      unfolding c by (intro allI impI map_of_enumerate)
    from proof_loop_path [OF this ci, of "[]" "[]"]
    have "proof_loop (tree_cache t') [0..<length (tree_cache t') - 1] (nat i) [] [] =
            Inr (map fst (spec_path (level_decomposition ?L0) (nat i)),
                 map snd (spec_path (level_decomposition ?L0) (nat i)))"
      by (simp add: c)
    then have "get_proof_by_index t i = Inr (Some (proof_of t i), t')"
      using False inr t' by (simp add: get_proof_by_index_def proof_of_def)
    with t' show ?thesis by blast
  qed
qed

lemma get_proof_by_index_out:
  "i < 0 \<or> int (length (leaf_hashes t)) \<le> i \<Longrightarrow> get_proof_by_index t i = Inr (None, t)"
  by (simp add: get_proof_by_index_def)

lemma verify_proof_of:
  assumes "consistent t" "0 \<le> i" "i < int (length (leaf_hashes t))"
  shows "verify (proof_of t i) = Inr True"
proof -
  from assms(1) have len: "length (leaves t) = length (leaf_hashes t)"
    by (simp add: consistent_def)
  let ?L0 = "leaf_nodes t"
  let ?P = "spec_path (level_decomposition ?L0) (nat i)"
  have ci: "nat i < length ?L0"
    using assms length_leaf_nodes [OF len] by simp
  have k: "nat i < length (leaf_hashes t)" using assms by simp
  have "spec_fold (hash (?L0 ! nat i)) ?P = spec_root (map hash ?L0)"
    using ci by (rule fold_path)
  then have "spec_fold (leaf_hashes t ! nat i) ?P = spec_root (leaf_hashes t)"
    by (simp add: hash_leaf_nodes [OF len] hash_leaf_nodes_nth [OF len k])
  then show ?thesis
    by (simp add: verify_eq proof_of_def zip_map_fst_snd)
qed

lemma consistent_init: "consistent MerkleTree_init"
  by (simp add: consistent_def MerkleTree_init_def)

lemma add_leaf_fields [simp]:
  "leaves (snd (add_leaf t d)) = leaves t @ [d]"
  "leaf_hashes (snd (add_leaf t d)) = leaf_hashes t @ [hash_data d]"
  "root (snd (add_leaf t d)) = None"
  "tree_cache (snd (add_leaf t d)) = []"
  "fst (add_leaf t d) = hash_data d"
  by (simp_all add: add_leaf_def Let_def)

lemma consistent_add_leaf: "consistent t \<Longrightarrow> consistent (snd (add_leaf t d))"
  by (simp add: consistent_def)

lemma build_tree_keeps:
  assumes "consistent t" "build_tree t = Inr (r, t')"
  shows "consistent t' \<and> leaves t' = leaves t \<and> leaf_hashes t' = leaf_hashes t"
  using build_tree_consistent [OF assms(1)] assms(2) by auto

lemma get_root_keeps:
  assumes "consistent t" "get_root t = Inr (r, t')"
  shows "consistent t' \<and> leaves t' = leaves t \<and> leaf_hashes t' = leaf_hashes t"
  using get_root_consistent [OF assms(1)] assms(2) by auto

lemma get_proof_by_index_keeps:
  assumes "consistent t" "get_proof_by_index t i = Inr (p, t')"
  shows "consistent t' \<and> leaves t' = leaves t \<and> leaf_hashes t' = leaf_hashes t"
proof (cases "i < 0 \<or> int (length (leaf_hashes t)) \<le> i")
  case True
  with assms show ?thesis by (simp add: get_proof_by_index_out)
next
  case False
  then have "0 \<le> i" "i < int (length (leaf_hashes t))" by auto
  from get_proof_by_index_consistent [OF assms(1) this] assms(2) show ?thesis by auto
qed

lemma get_proof_keeps:
  assumes "consistent t" "get_proof t d = Inr (p, t')"
  shows "consistent t' \<and> leaves t' = leaves t \<and> leaf_hashes t' = leaf_hashes t"
proof (cases "index_of (leaves t) d")
  case None
  with assms show ?thesis by (simp add: get_proof_def)
next
  case (Some k)
  with assms(2) have "get_proof_by_index t (int k) = Inr (p, t')"
    by (simp add: get_proof_def)
  with assms(1) show ?thesis by (rule get_proof_by_index_keeps)
qed

lemma verify_proof_keeps:
  assumes "consistent t" "verify_proof t q = Inr (b, t')"
  shows "consistent t' \<and> leaves t' = leaves t \<and> leaf_hashes t' = leaf_hashes t"
  using get_root_consistent [OF assms(1)] assms(2)
  by (auto simp: verify_proof_def split: if_splits sum.splits)

lemma get_tree_info_keeps:
  assumes "consistent t" "get_tree_info t = Inr (info, t')"
  shows "consistent t' \<and> leaves t' = leaves t \<and> leaf_hashes t' = leaf_hashes t"
  using get_root_consistent [OF assms(1)] assms(2)
  by (auto simp: get_tree_info_def Let_def)

lemma serialize_keeps:
  assumes "consistent t" "serialize t = Inr (doc, t')"
  shows "consistent t' \<and> leaves t' = leaves t \<and> leaf_hashes t' = leaf_hashes t"
proof -
  from assms(2) obtain r t1 info where
    a: "get_root t = Inr (r, t1)" and b: "get_tree_info t1 = Inr (info, t')"
    by (auto simp: serialize_def split: sum.splits)
  from get_root_keeps [OF assms(1) a] have
    t1: "consistent t1" "leaves t1 = leaves t" "leaf_hashes t1 = leaf_hashes t" by auto
  from get_tree_info_keeps [OF t1(1) b] t1 show ?thesis by simp
qed

lemma reachable_consistent: "reachable t \<Longrightarrow> consistent t"
proof (induction rule: reachable.induct)
  case init
  show ?case by (rule consistent_init)
next
  case (add_leaf t d)
  then show ?case by (simp add: consistent_add_leaf)
next
  case (build_tree t r t')
  then show ?case using build_tree_keeps by blast
next
  case (get_root t r t')
  then show ?case using get_root_keeps by blast
next
  case (get_proof_by_index t i p t')
  then show ?case using get_proof_by_index_keeps by blast
next
  case (get_proof t d p t')
  then show ?case using get_proof_keeps by blast
next
  case (verify_proof t q b t')
  then show ?case using verify_proof_keeps by blast
next
  case (get_tree_info t info t')
  then show ?case using get_tree_info_keeps by blast
next
  case (serialize t doc t')
  then show ?case using serialize_keeps by blast
qed

lemma tree_of_snoc: "tree_of (ds @ [d]) = snd (add_leaf (tree_of ds) d)"
  by (simp add: tree_of_def)

lemma reachable_tree_of: "reachable (tree_of ds)"
proof (induction ds rule: rev_induct)
  case Nil
  show ?case by (simp add: tree_of_def reachable.init)
next
  case (snoc d ds)
  then show ?case by (simp add: tree_of_snoc reachable.add_leaf)
qed

lemma leaves_tree_of [simp]: "leaves (tree_of ds) = ds"
  by (induction ds rule: rev_induct) (simp_all add: tree_of_snoc, simp add: tree_of_def MerkleTree_init_def)

lemma index_of_Some:
  "index_of xs x = Some k \<Longrightarrow> k < length xs \<and> xs ! k = x \<and> (\<forall>j<k. xs ! j \<noteq> x)"
proof (induction xs arbitrary: k)
  case Nil
  then show ?case by simp
next
  case (Cons y ys)
  show ?case
  proof (cases "y = x")
    case True
    with Cons.prems show ?thesis by simp
  next
    case False
    with Cons.prems obtain k' where k': "index_of ys x = Some k'" "k = Suc k'"
      by auto
    from Cons.IH [OF k'(1)] False k'(2) show ?thesis
      by (auto simp: nth_Cons split: nat.splits)
  qed
qed

lemma leaf_hashes_reachable:
  "consistent t \<Longrightarrow> leaf_hashes t = map hash_data (leaves t)"
  by (simp add: consistent_def)

lemma get_proof_in:
  assumes "consistent t" "d \<in> set (leaves t)"
  shows "\<exists>k t'. index_of (leaves t) d = Some k \<and> k < length (leaves t) \<and> leaves t ! k = d
               \<and> (\<forall>j<k. leaves t ! j \<noteq> d)
               \<and> get_proof t d = Inr (Some (proof_of t (int k)), t')
               \<and> get_proof_by_index t (int k) = Inr (Some (proof_of t (int k)), t')
               \<and> consistent t' \<and> leaves t' = leaves t \<and> leaf_hashes t' = leaf_hashes t"
proof -
  from assms(2) obtain k where k: "index_of (leaves t) d = Some k"
    using index_of_None [of "leaves t" d] by (cases "index_of (leaves t) d") auto
  from index_of_Some [OF k] have
    f: "k < length (leaves t)" "leaves t ! k = d" "\<forall>j<k. leaves t ! j \<noteq> d" by auto
  from assms(1) have len: "length (leaf_hashes t) = length (leaves t)"
    by (simp add: consistent_def)
  have "0 \<le> int k" "int k < int (length (leaf_hashes t))" using f len by auto
  from get_proof_by_index_consistent [OF assms(1) this] obtain t' where
    "get_proof_by_index t (int k) = Inr (Some (proof_of t (int k)), t')" "consistent t'"
    "leaves t' = leaves t" "leaf_hashes t' = leaf_hashes t" by blast
  with k f show ?thesis by (simp add: get_proof_def)
qed

lemma proof_of_cong:
  "leaves t' = leaves t \<Longrightarrow> leaf_hashes t' = leaf_hashes t \<Longrightarrow> proof_of t' i = proof_of t i"
  by (simp add: proof_of_def leaf_nodes_def)

lemma verify_proof_true:
  assumes "consistent t" "0 \<le> i" "i < int (length (leaf_hashes t))"
  shows "\<exists>t'. verify_proof t (proof_of t i) = Inr (True, t')"
proof -
  from get_root_consistent [OF assms(1)] obtain t' where
    "get_root t = Inr (spec_root (leaf_hashes t), t')" by blast
  moreover have "root_hash (proof_of t i) = spec_root (leaf_hashes t)"
    by (simp add: proof_of_def)
  ultimately show ?thesis
    using verify_proof_of [OF assms] by (simp add: verify_proof_def)
qed

lemma length_spec_path: "length (spec_path lvls i) = length lvls - 1"
  by (induction lvls i rule: spec_path.induct) simp_all

lemma spec_path_nth:
  "k < length lvls - 1 \<Longrightarrow> spec_path lvls i ! k = sibling_step (lvls ! k) (i div 2 ^ k)"
proof (induction lvls i arbitrary: k rule: spec_path.induct)
  case (1 level upper rest index)
  show ?case
  proof (cases k)
    case 0
    then show ?thesis by simp
  next
    case (Suc j)
    with "1.prems" have "j < length (upper # rest) - 1" by simp
    from "1.IH" [OF this] show ?thesis
      using Suc by (simp add: div_mult2_eq)
  qed
qed simp_all

lemma leaf_hashes_tree_of [simp]: "leaf_hashes (tree_of ds) = map hash_data ds"
  using reachable_consistent [OF reachable_tree_of, of ds]
  by (simp add: consistent_def)


lemma serialize_consistent:
  assumes "consistent t"
  shows "\<exists>info t1. serialize t =
            Inr (\<lparr>doc_leaves = Some (leaves t), doc_leaf_hashes = Some (leaf_hashes t),
                  doc_root_hash = Some (spec_root (leaf_hashes t)),
                  doc_tree_info = Some info\<rparr>, t1)
          \<and> consistent t1 \<and> leaves t1 = leaves t \<and> leaf_hashes t1 = leaf_hashes t"
proof -
  from get_root_consistent [OF assms] obtain t1 where
    t1: "get_root t = Inr (spec_root (leaf_hashes t), t1)" "consistent t1"
        "leaves t1 = leaves t" "leaf_hashes t1 = leaf_hashes t" by blast
  from get_root_consistent [OF t1(2)] obtain t2 where
    t2: "get_root t1 = Inr (spec_root (leaf_hashes t1), t2)" "consistent t2"
        "leaves t2 = leaves t1" "leaf_hashes t2 = leaf_hashes t1" by blast
  show ?thesis
    using t1 t2 by (simp add: serialize_def get_tree_info_def Let_def)
qed

lemma deserialize_consistent:
  "\<exists>t2. deserialize \<lparr>doc_leaves = Some ls, doc_leaf_hashes = Some (map hash_data ls),
                       doc_root_hash = x, doc_tree_info = y\<rparr> = Inr t2
        \<and> consistent t2 \<and> leaves t2 = ls \<and> leaf_hashes t2 = map hash_data ls"
proof -
  let ?tree = "MerkleTree_init\<lparr>leaves := ls, leaf_hashes := map hash_data ls\<rparr>"
  have c: "consistent ?tree"
    by (simp add: consistent_def MerkleTree_init_def)
  show ?thesis
  proof (cases "ls = []")
    case True
    with c show ?thesis by (simp add: deserialize_def Let_def)
  next
    case False
    from build_tree_consistent [OF c] obtain t' where
      "build_tree ?tree = Inr (spec_root (leaf_hashes ?tree), t')" "consistent t'"
      "leaves t' = leaves ?tree" "leaf_hashes t' = leaf_hashes ?tree" by blast
    with False show ?thesis by (simp add: deserialize_def Let_def)
  qed
qed

lemma deserialize_ignores_root: "deserialize (d\<lparr>doc_root_hash := x\<rparr>) = deserialize d"
  by (cases "doc_leaves d") (simp_all add: deserialize_def)

lemma get_proof_complete:
  assumes "consistent t" "d \<in> set (leaves t)"
  shows "\<exists>k p t'. get_proof t d = Inr (Some p, t')
          \<and> k < length (leaves t) \<and> leaves t ! k = d \<and> (\<forall>j<k. leaves t ! j \<noteq> d)
          \<and> leaf_index p = int k \<and> leaf_hash p = hash_data d
          \<and> root_hash p = spec_root (map hash_data (leaves t))
          \<and> proof_hashes p = map fst (spec_path (level_decomposition (leaf_nodes t)) k)
          \<and> proof_directions p = map snd (spec_path (level_decomposition (leaf_nodes t)) k)
          \<and> spec_fold (hash_data d) (zip (proof_hashes p) (proof_directions p)) =
              spec_root (map hash_data (leaves t))
          \<and> verify p = Inr True
          \<and> (\<exists>t''. verify_proof t' p = Inr (True, t''))
          \<and> (\<exists>t''. verify_proof t p = Inr (True, t''))"
proof -
  note c = assms(1)
  from get_proof_in [OF c assms(2)] obtain k t' where
    k: "k < length (leaves t)" "leaves t ! k = d" "\<forall>j<k. leaves t ! j \<noteq> d"
       "get_proof t d = Inr (Some (proof_of t (int k)), t')"
       "consistent t'" "leaves t' = leaves t" "leaf_hashes t' = leaf_hashes t"
    by blast
  let ?p = "proof_of t (int k)"
  from c have lh: "leaf_hashes t = map hash_data (leaves t)" by (simp add: consistent_def)
  then have len: "length (leaf_hashes t) = length (leaves t)" by simp
  have r: "0 \<le> int k" "int k < int (length (leaf_hashes t))" using k(1) len by auto
  have r': "int k < int (length (leaf_hashes t'))" using r k(7) by simp
  have v: "verify ?p = Inr True"
    using c r by (rule verify_proof_of)
  have f1: "leaf_index ?p = int k" by (simp add: proof_of_def)
  have f2: "leaf_hash ?p = hash_data d"
    using k(1) k(2) by (simp add: proof_of_def lh)
  have f3: "root_hash ?p = spec_root (map hash_data (leaves t))"
    by (simp add: proof_of_def lh)
  have f4: "proof_hashes ?p = map fst (spec_path (level_decomposition (leaf_nodes t)) k)"
    by (simp add: proof_of_def)
  have f5: "proof_directions ?p = map snd (spec_path (level_decomposition (leaf_nodes t)) k)"
    by (simp add: proof_of_def)
  have "length (proof_hashes ?p) \<le> length (proof_directions ?p)"
    by (simp add: f4 f5)
  from verify_eq [OF this] v have
    "spec_fold (leaf_hash ?p) (zip (proof_hashes ?p) (proof_directions ?p)) = root_hash ?p"
    by simp
  then have f6: "spec_fold (hash_data d) (zip (proof_hashes ?p) (proof_directions ?p)) =
                 spec_root (map hash_data (leaves t))"
    by (simp only: f2 f3)
  have w1: "\<exists>t''. verify_proof t' ?p = Inr (True, t'')"
    using verify_proof_true [OF k(5) r(1) r'] by (simp add: proof_of_cong [OF k(6) k(7)])
  have w2: "\<exists>t''. verify_proof t ?p = Inr (True, t'')"
    using c r by (rule verify_proof_true)
  have "get_proof t d = Inr (Some ?p, t')
          \<and> k < length (leaves t) \<and> leaves t ! k = d \<and> (\<forall>j<k. leaves t ! j \<noteq> d)
          \<and> leaf_index ?p = int k \<and> leaf_hash ?p = hash_data d
          \<and> root_hash ?p = spec_root (map hash_data (leaves t))
          \<and> proof_hashes ?p = map fst (spec_path (level_decomposition (leaf_nodes t)) k)
          \<and> proof_directions ?p = map snd (spec_path (level_decomposition (leaf_nodes t)) k)
          \<and> spec_fold (hash_data d) (zip (proof_hashes ?p) (proof_directions ?p)) =
              spec_root (map hash_data (leaves t))
          \<and> verify ?p = Inr True
          \<and> (\<exists>t''. verify_proof t' ?p = Inr (True, t''))
          \<and> (\<exists>t''. verify_proof t ?p = Inr (True, t''))"
    using k(4) k(1) k(2) k(3) f1 f2 f3 f4 f5 f6 v w1 w2 by (intro conjI)
  then show ?thesis
    by (intro exI [of _ k] exI [of _ ?p] exI [of _ t'])
qed

lemma deserialize_built:
  assumes "ls \<noteq> []"
  shows "\<exists>t2. deserialize \<lparr>doc_leaves = Some ls, doc_leaf_hashes = Some (map hash_data ls),
                          doc_root_hash = x, doc_tree_info = y\<rparr> = Inr t2
           \<and> build_tree (MerkleTree_init\<lparr>leaves := ls, leaf_hashes := map hash_data ls\<rparr>) =
               Inr (spec_root (map hash_data ls), t2)
           \<and> consistent t2 \<and> leaves t2 = ls \<and> leaf_hashes t2 = map hash_data ls
           \<and> root t2 \<noteq> None"
proof -
  let ?tree = "MerkleTree_init\<lparr>leaves := ls, leaf_hashes := map hash_data ls\<rparr>"
  have c: "consistent ?tree"
    by (simp add: consistent_def MerkleTree_init_def)
  from build_tree_consistent [OF c] obtain t' where
    t': "build_tree ?tree = Inr (spec_root (leaf_hashes ?tree), t')" "consistent t'"
        "leaves t' = leaves ?tree" "leaf_hashes t' = leaf_hashes ?tree" "root t' \<noteq> None"
    by blast
  with assms show ?thesis by (simp add: deserialize_def Let_def)
qed

lemma deserialize_empty:
  "deserialize \<lparr>doc_leaves = Some [], doc_leaf_hashes = Some [],
                 doc_root_hash = x, doc_tree_info = y\<rparr> = Inr MerkleTree_init"
  by (simp add: deserialize_def Let_def MerkleTree_init_def)

lemma deref_add_leaf_at:
  assumes "leaves_at obj < length s" "leaf_hashes_at obj < length s"
    "leaves_at obj \<noteq> leaf_hashes_at obj"
  shows "deref (snd (snd (add_leaf_at s obj d))) (fst (snd (add_leaf_at s obj d))) =
           snd (add_leaf (deref s obj) d)"
  using assms by (simp add: add_leaf_at_def add_leaf_def deref_def Let_def)

lemma two_leaf_levels:
  "build_loop [x, y] 0 [(0, [x, y])] = ([parent_of x y], [(0, [x, y]), (Suc 0, [parent_of x y])])"
  by (simp add: build_loop.simps pair_nodes_0 Let_def)

lemma build_two:
  "build_tree \<lparr>leaves = [a, b], leaf_hashes = [ha, hb], root = None, tree_cache = []\<rparr> =
     Inr (hash_data (ha @ hb),
          \<lparr>leaves = [a, b], leaf_hashes = [ha, hb],
           root = Some (parent_of (MerkleNode ha None None (Some a)) (MerkleNode hb None None (Some b))),
           tree_cache = [(0, [MerkleNode ha None None (Some a), MerkleNode hb None None (Some b)]),
                         (Suc 0, [parent_of (MerkleNode ha None None (Some a))
                                            (MerkleNode hb None None (Some b))])]\<rparr>)"
  by (simp add: build_tree_def leaf_nodes_def two_leaf_levels Let_def parent_of_def)

lemma shared_run_eq:
  "shared_run =
     (\<lparr>leaves_at = 0, leaf_hashes_at = 1, root_of = Some (parent_of node_a node_b),
       cache_of = [(0, [node_a, node_b]), (Suc 0, [parent_of node_a node_b])]\<rparr>,
      \<lparr>leaves_at = 0, leaf_hashes_at = 1, root_of = None, cache_of = []\<rparr>,
      [[''a'', ''b'', ''c''], [hash_data ''a'', hash_data ''b'', hash_data ''c''], [], []])"
  by (simp add: shared_run_def MerkleTree_new_def add_leaf_at_def serialize_at_def
        deserialize_at_def deref_def put_back_def get_root_def get_tree_info_def build_two
        node_a_def node_b_def Let_def)

section \<open>Claims\<close>

text \<open>C1. On every reachable tree, \<open>get_root\<close> and \<open>build_tree\<close> return the reference
  root of the leaf sequence: the hash of the empty string for no leaf, the leaf's hash for
  one leaf, the root of the paired level for two or more; for the leaves \<open>data1\<close>,
  \<open>data2\<close>, \<open>data3\<close> it is \<open>H(H(h1 || h2) || H(h3 || h3))\<close>.\<close>

theorem C1_root_is_reference:
  assumes "reachable t"
  shows "(\<exists>t'. get_root t = Inr (spec_root (map hash_data (leaves t)), t'))
       \<and> (\<exists>t'. build_tree t = Inr (spec_root (map hash_data (leaves t)), t'))
       \<and> (leaves t = [] \<longrightarrow> spec_root (map hash_data (leaves t)) = hash_data '''')
       \<and> (\<forall>d. leaves t = [d] \<longrightarrow> spec_root (map hash_data (leaves t)) = hash_data d)
       \<and> (2 \<le> length (leaves t) \<longrightarrow>
            spec_root (map hash_data (leaves t)) =
              spec_root (spec_pair (map hash_data (leaves t))))
       \<and> (leaves t = [''data1'', ''data2'', ''data3''] \<longrightarrow>
            spec_root (map hash_data (leaves t)) =
              hash_data (hash_data (hash_data ''data1'' @ hash_data ''data2'')
                         @ hash_data (hash_data ''data3'' @ hash_data ''data3'')))"
proof -
  from assms have c: "consistent t" by (rule reachable_consistent)
  then have lh: "leaf_hashes t = map hash_data (leaves t)" by (rule leaf_hashes_reachable)
  from get_root_consistent [OF c] have
    "\<exists>t'. get_root t = Inr (spec_root (map hash_data (leaves t)), t')"
    unfolding lh by blast
  moreover from build_tree_consistent [OF c] have
    "\<exists>t'. build_tree t = Inr (spec_root (map hash_data (leaves t)), t')"
    unfolding lh by blast
  ultimately show ?thesis
    by (auto simp: spec_root_Nil spec_root_single spec_root_many)
qed

theorem C1_root_is_reference_witness:
  "reachable (tree_of [])
   \<and> (\<exists>t'. get_root (tree_of []) = Inr (hash_data '''', t'))
   \<and> reachable (tree_of [''data1''])
   \<and> (\<exists>t'. get_root (tree_of [''data1'']) = Inr (hash_data ''data1'', t'))
   \<and> reachable (tree_of [''data1'', ''data2'', ''data3''])
   \<and> (\<exists>t'. get_root (tree_of [''data1'', ''data2'', ''data3'']) =
         Inr (hash_data (hash_data (hash_data ''data1'' @ hash_data ''data2'')
                         @ hash_data (hash_data ''data3'' @ hash_data ''data3'')), t'))
   \<and> (\<exists>t'. build_tree (tree_of [''data1'', ''data2'', ''data3'']) =
         Inr (hash_data (hash_data (hash_data ''data1'' @ hash_data ''data2'')
                         @ hash_data (hash_data ''data3'' @ hash_data ''data3'')), t'))"
proof -
  have r0: "reachable (tree_of [])" by (rule reachable_tree_of)
  have r1: "reachable (tree_of [''data1''])" by (rule reachable_tree_of)
  have r3: "reachable (tree_of [''data1'', ''data2'', ''data3''])"
    by (rule reachable_tree_of)
  from C1_root_is_reference [OF r0]
  have a: "\<exists>t'. get_root (tree_of []) = Inr (hash_data '''', t')" by auto
  from C1_root_is_reference [OF r1]
  have b: "\<exists>t'. get_root (tree_of [''data1'']) = Inr (hash_data ''data1'', t')" by auto
  from C1_root_is_reference [OF r3]
  have c: "\<exists>t'. get_root (tree_of [''data1'', ''data2'', ''data3'']) =
         Inr (hash_data (hash_data (hash_data ''data1'' @ hash_data ''data2'')
                         @ hash_data (hash_data ''data3'' @ hash_data ''data3'')), t')"
    and d: "\<exists>t'. build_tree (tree_of [''data1'', ''data2'', ''data3'']) =
         Inr (hash_data (hash_data (hash_data ''data1'' @ hash_data ''data2'')
                         @ hash_data (hash_data ''data3'' @ hash_data ''data3'')), t')"
    by auto
  from r0 a r1 b r3 c d show ?thesis by (intro conjI)
qed

text \<open>C2. On every reachable tree and for every leaf in it, \<open>get_proof\<close> returns the
  proof of that leaf: its leaf hash is the hash of the leaf, its index the first position
  of the leaf, its root the reference root and its two lists the sibling steps from that
  position; the fold of these steps from the leaf's hash is the root, \<open>verify\<close> of the
  proof is true, and so is \<open>verify_proof\<close> on the tree, before and after the call.\<close>

theorem C2_proof_completeness:
  assumes "reachable t" "d \<in> set (leaves t)"
  shows "\<exists>k p t'. get_proof t d = Inr (Some p, t')
          \<and> k < length (leaves t) \<and> leaves t ! k = d \<and> (\<forall>j<k. leaves t ! j \<noteq> d)
          \<and> leaf_index p = int k \<and> leaf_hash p = hash_data d
          \<and> root_hash p = spec_root (map hash_data (leaves t))
          \<and> proof_hashes p = map fst (spec_path (level_decomposition (leaf_nodes t)) k)
          \<and> proof_directions p = map snd (spec_path (level_decomposition (leaf_nodes t)) k)
          \<and> spec_fold (hash_data d) (zip (proof_hashes p) (proof_directions p)) =
              spec_root (map hash_data (leaves t))
          \<and> verify p = Inr True
          \<and> (\<exists>t''. verify_proof t' p = Inr (True, t''))
          \<and> (\<exists>t''. verify_proof t p = Inr (True, t''))"
  using get_proof_complete [OF reachable_consistent [OF assms(1)] assms(2)] .

theorem C2_proof_completeness_witness:
  "reachable (tree_of [''data1'', ''data2'', ''data3''])
   \<and> ''data3'' \<in> set (leaves (tree_of [''data1'', ''data2'', ''data3'']))
   \<and> (\<exists>p t'. get_proof (tree_of [''data1'', ''data2'', ''data3'']) ''data3'' = Inr (Some p, t')
         \<and> leaf_index p = 2 \<and> leaf_hash p = hash_data ''data3''
         \<and> root_hash p =
              hash_data (hash_data (hash_data ''data1'' @ hash_data ''data2'')
                         @ hash_data (hash_data ''data3'' @ hash_data ''data3''))
         \<and> proof_hashes p =
              [hash_data ''data3'', hash_data (hash_data ''data1'' @ hash_data ''data2'')]
         \<and> proof_directions p = [''right'', ''left'']
         \<and> verify p = Inr True
         \<and> (\<exists>t''. verify_proof t' p = Inr (True, t'')))"
proof -
  let ?t = "tree_of [''data1'', ''data2'', ''data3'']"
  have r: "reachable ?t" by (rule reachable_tree_of)
  have m: "''data3'' \<in> set (leaves ?t)" by simp
  have path: "spec_path (level_decomposition (leaf_nodes ?t)) 2 =
     [(hash_data ''data3'', ''right''),
      (hash_data (hash_data ''data1'' @ hash_data ''data2''), ''left'')]"
    by (simp add: leaf_nodes_def decomp_many decomp_few sibling_step_def parent_of_def Let_def)
  have s: "spec_root [hash_data ''data1'', hash_data ''data2'', hash_data ''data3''] =
           hash_data (hash_data (hash_data ''data1'' @ hash_data ''data2'')
                      @ hash_data (hash_data ''data3'' @ hash_data ''data3''))"
    by (simp add: spec_root_many spec_root_single)
  from C2_proof_completeness [OF r m] obtain k p t' where
    f: "get_proof ?t ''data3'' = Inr (Some p, t')"
       "k < length (leaves ?t)" "leaves ?t ! k = ''data3''"
       "leaf_index p = int k" "leaf_hash p = hash_data ''data3''"
       "root_hash p = spec_root (map hash_data (leaves ?t))"
       "proof_hashes p = map fst (spec_path (level_decomposition (leaf_nodes ?t)) k)"
       "proof_directions p = map snd (spec_path (level_decomposition (leaf_nodes ?t)) k)"
       "verify p = Inr True"
       "\<exists>t''. verify_proof t' p = Inr (True, t'')"
    by blast
  from f(2) have "k = 0 \<or> k = 1 \<or> k = 2" by auto
  with f(3) have k: "k = 2" by auto
  have "get_proof ?t ''data3'' = Inr (Some p, t')
         \<and> leaf_index p = 2 \<and> leaf_hash p = hash_data ''data3''
         \<and> root_hash p =
              hash_data (hash_data (hash_data ''data1'' @ hash_data ''data2'')
                         @ hash_data (hash_data ''data3'' @ hash_data ''data3''))
         \<and> proof_hashes p =
              [hash_data ''data3'', hash_data (hash_data ''data1'' @ hash_data ''data2'')]
         \<and> proof_directions p = [''right'', ''left'']
         \<and> verify p = Inr True
         \<and> (\<exists>t''. verify_proof t' p = Inr (True, t''))"
    using f(1) f(4) f(5) f(6) f(7) f(8) f(9) f(10) by (simp add: k path s)
  then have "\<exists>p t'. get_proof ?t ''data3'' = Inr (Some p, t')
         \<and> leaf_index p = 2 \<and> leaf_hash p = hash_data ''data3''
         \<and> root_hash p =
              hash_data (hash_data (hash_data ''data1'' @ hash_data ''data2'')
                         @ hash_data (hash_data ''data3'' @ hash_data ''data3''))
         \<and> proof_hashes p =
              [hash_data ''data3'', hash_data (hash_data ''data1'' @ hash_data ''data2'')]
         \<and> proof_directions p = [''right'', ''left'']
         \<and> verify p = Inr True
         \<and> (\<exists>t''. verify_proof t' p = Inr (True, t''))"
    by (intro exI [of _ p] exI [of _ t'])
  with r m show ?thesis by (intro conjI)
qed

text \<open>C3. On a proof with a direction for every sibling hash, \<open>verify\<close> is the fold of the
  specification compared with \<open>root_hash\<close>; \<open>verify_proof\<close> gets the root of the tree and
  answers true exactly when the proof's root equals it and the fold succeeds.\<close>

theorem C3_verify_is_fold:
  assumes "length (proof_hashes p) \<le> length (proof_directions p)"
  shows "verify p = Inr (spec_fold (leaf_hash p) (zip (proof_hashes p) (proof_directions p))
                          = root_hash p)
       \<and> verify_proof t p =
           (case get_root t of
              Inl e \<Rightarrow> Inl e
            | Inr (r, t') \<Rightarrow>
                Inr (root_hash p = r \<and>
                     spec_fold (leaf_hash p) (zip (proof_hashes p) (proof_directions p))
                       = root_hash p, t'))"
  using assms by (auto simp: verify_proof_def verify_eq split: sum.splits)

theorem C3_verify_is_fold_witness:
  "length (proof_hashes \<lparr>leaf_hash = ''aa'', leaf_index = 1, proof_hashes = [''bb''],
             proof_directions = [''left''], root_hash = hash_data ''bbaa''\<rparr>)
     \<le> length (proof_directions \<lparr>leaf_hash = ''aa'', leaf_index = 1, proof_hashes = [''bb''],
             proof_directions = [''left''], root_hash = hash_data ''bbaa''\<rparr>)
   \<and> verify \<lparr>leaf_hash = ''aa'', leaf_index = 1, proof_hashes = [''bb''],
             proof_directions = [''left''], root_hash = hash_data ''bbaa''\<rparr> = Inr True"
  using C3_verify_is_fold [of "\<lparr>leaf_hash = ''aa'', leaf_index = 1, proof_hashes = [''bb''],
             proof_directions = [''left''], root_hash = hash_data ''bbaa''\<rparr>" MerkleTree_init]
  by simp

text \<open>C4. On every reachable tree and for every valid leaf index, \<open>get_proof_by_index\<close>
  returns the proof of the specification: one sibling step for each level below the root,
  in leaf-to-root order, step \<open>k\<close> taken at index \<open>i div 2 ^ k\<close> of level \<open>k\<close>; the two
  lists have the same length, and both are empty for a single leaf.\<close>

theorem C4_proof_steps:
  assumes "reachable t" "0 \<le> i" "i < int (length (leaves t))"
  shows "\<exists>p t'. get_proof_by_index t i = Inr (Some p, t')
          \<and> leaf_hash p = leaf_hashes t ! nat i \<and> leaf_index p = i
          \<and> proof_hashes p = map fst (spec_path (level_decomposition (leaf_nodes t)) (nat i))
          \<and> proof_directions p = map snd (spec_path (level_decomposition (leaf_nodes t)) (nat i))
          \<and> length (proof_hashes p) = length (proof_directions p)
          \<and> length (proof_hashes p) = length (level_decomposition (leaf_nodes t)) - 1
          \<and> (\<forall>k < length (proof_hashes p).
                (proof_hashes p ! k, proof_directions p ! k) =
                  sibling_step (level_decomposition (leaf_nodes t) ! k) (nat i div 2 ^ k))
          \<and> (length (leaves t) = 1 \<longrightarrow> proof_hashes p = [] \<and> proof_directions p = [])"
proof -
  from assms(1) have c: "consistent t" by (rule reachable_consistent)
  then have len: "length (leaves t) = length (leaf_hashes t)" by (simp add: consistent_def)
  have r: "i < int (length (leaf_hashes t))" using assms(3) len by simp
  from get_proof_by_index_consistent [OF c assms(2) r] obtain t' where
    g: "get_proof_by_index t i = Inr (Some (proof_of t i), t')" by blast
  let ?lv = "level_decomposition (leaf_nodes t)"
  let ?P = "spec_path ?lv (nat i)"
  have nth: "\<forall>k < length ?P. (map fst ?P ! k, map snd ?P ! k) = sibling_step (?lv ! k) (nat i div 2 ^ k)"
    by (simp add: length_spec_path spec_path_nth)
  have single: "length (leaves t) = 1 \<longrightarrow> ?P = []"
    using length_leaf_nodes [OF len] len by (auto intro: spec_path_single)
  show ?thesis
    using g nth single by (simp add: proof_of_def length_spec_path)
qed

theorem C4_proof_steps_witness:
  "reachable (tree_of [''data1'', ''data2'', ''data3''])
   \<and> (0::int) \<le> 2 \<and> (2::int) < int (length (leaves (tree_of [''data1'', ''data2'', ''data3''])))
   \<and> (\<exists>p t'. get_proof_by_index (tree_of [''data1'', ''data2'', ''data3'']) 2 = Inr (Some p, t')
         \<and> proof_hashes p =
              [hash_data ''data3'', hash_data (hash_data ''data1'' @ hash_data ''data2'')]
         \<and> proof_directions p = [''right'', ''left''])
   \<and> reachable (tree_of [''data1''])
   \<and> (0::int) < int (length (leaves (tree_of [''data1''])))
   \<and> length (leaves (tree_of [''data1''])) = 1
   \<and> (\<exists>p t'. get_proof_by_index (tree_of [''data1'']) 0 = Inr (Some p, t')
         \<and> proof_hashes p = [] \<and> proof_directions p = [])"
proof -
  let ?t = "tree_of [''data1'', ''data2'', ''data3'']"
  let ?s = "tree_of [''data1'']"
  have r: "reachable ?t" by (rule reachable_tree_of)
  have b: "(0::int) \<le> 2" "(2::int) < int (length (leaves ?t))" by simp_all
  have path: "spec_path (level_decomposition (leaf_nodes ?t)) 2 =
     [(hash_data ''data3'', ''right''),
      (hash_data (hash_data ''data1'' @ hash_data ''data2''), ''left'')]"
    by (simp add: leaf_nodes_def decomp_many decomp_few sibling_step_def parent_of_def Let_def)
  from C4_proof_steps [OF r b]
  have three: "\<exists>p t'. get_proof_by_index ?t 2 = Inr (Some p, t')
         \<and> proof_hashes p =
              [hash_data ''data3'', hash_data (hash_data ''data1'' @ hash_data ''data2'')]
         \<and> proof_directions p = [''right'', ''left'']"
    by (auto simp: path)
  have r1: "reachable ?s" by (rule reachable_tree_of)
  have b1: "(0::int) \<le> 0" "(0::int) < int (length (leaves ?s))" by simp_all
  have l1: "length (leaves ?s) = 1" by simp
  from C4_proof_steps [OF r1 b1] l1
  have one: "\<exists>p t'. get_proof_by_index ?s 0 = Inr (Some p, t')
         \<and> proof_hashes p = [] \<and> proof_directions p = []"
    by blast
  from r b three r1 b1(2) l1 one show ?thesis by (intro conjI)
qed

text \<open>C5. The invariant does not hold in every state the methods reach. After
  \<open>t2 = MerkleTree.deserialize(t.serialize())\<close> and \<open>t2.add_leaf("c")\<close> the first tree \<open>t\<close>
  has three leaves, while its cache is not empty and still holds the two levels of two
  leaves, its root is the node built from two leaves, and \<open>get_root\<close> returns that root
  and rebuilds nothing.\<close>

theorem C5_shared_lists_stale:
  "leaves first_tree = [''a'', ''b'', ''c'']
   \<and> leaf_hashes first_tree = [hash_data ''a'', hash_data ''b'', hash_data ''c'']
   \<and> tree_cache first_tree = [(0, [node_a, node_b]), (1, [parent_of node_a node_b])]
   \<and> tree_cache first_tree \<noteq> []
   \<and> tree_cache first_tree \<noteq> enumerate 0 (level_decomposition (leaf_nodes first_tree))
   \<and> length (level_decomposition (leaf_nodes first_tree)) = 3
   \<and> root first_tree = Some (parent_of node_a node_b)
   \<and> get_root first_tree = Inr (hash_data (hash_data ''a'' @ hash_data ''b''), first_tree)
   \<and> get_root_at (snd (snd shared_run)) (fst shared_run) =
       Inr (hash_data (hash_data ''a'' @ hash_data ''b''), fst shared_run)
   \<and> spec_root (leaf_hashes first_tree) =
       hash_data (hash_data (hash_data ''a'' @ hash_data ''b'')
                  @ hash_data (hash_data ''c'' @ hash_data ''c''))"
proof -
  have v: "first_tree =
     \<lparr>leaves = [''a'', ''b'', ''c''],
      leaf_hashes = [hash_data ''a'', hash_data ''b'', hash_data ''c''],
      root = Some (parent_of node_a node_b),
      tree_cache = [(0, [node_a, node_b]), (Suc 0, [parent_of node_a node_b])]\<rparr>"
    by (simp add: first_tree_def shared_run_eq deref_def)
  have ld: "level_decomposition (leaf_nodes first_tree) =
     [[node_a, node_b, MerkleNode (hash_data ''c'') None None (Some ''c'')],
      [parent_of node_a node_b,
       parent_of (MerkleNode (hash_data ''c'') None None (Some ''c''))
                 (MerkleNode (hash_data ''c'') None None (Some ''c''))],
      [parent_of (parent_of node_a node_b)
         (parent_of (MerkleNode (hash_data ''c'') None None (Some ''c''))
                    (MerkleNode (hash_data ''c'') None None (Some ''c'')))]]"
    by (simp add: v leaf_nodes_def decomp_many decomp_few node_a_def node_b_def)
  have g: "get_root first_tree =
             Inr (hash_data (hash_data ''a'' @ hash_data ''b''), first_tree)"
    by (simp add: v get_root_def parent_of_def node_a_def node_b_def Let_def)
  have ga: "get_root_at (snd (snd shared_run)) (fst shared_run) =
       Inr (hash_data (hash_data ''a'' @ hash_data ''b''), fst shared_run)"
    using g by (simp add: get_root_at_def first_tree_def [symmetric] put_back_def
                  first_tree_def deref_def)
  have sr: "spec_root (leaf_hashes first_tree) =
       hash_data (hash_data (hash_data ''a'' @ hash_data ''b'')
                  @ hash_data (hash_data ''c'' @ hash_data ''c''))"
    by (simp add: v spec_root_many spec_root_single)
  have ne: "tree_cache first_tree \<noteq> enumerate 0 (level_decomposition (leaf_nodes first_tree))"
    unfolding ld by (simp add: v)
  have len: "length (level_decomposition (leaf_nodes first_tree)) = 3"
    unfolding ld by simp
  have l1: "leaves first_tree = [''a'', ''b'', ''c'']"
    and l2: "leaf_hashes first_tree = [hash_data ''a'', hash_data ''b'', hash_data ''c'']"
    and c1: "tree_cache first_tree = [(0, [node_a, node_b]), (1, [parent_of node_a node_b])]"
    and c2: "tree_cache first_tree \<noteq> []"
    and rt: "root first_tree = Some (parent_of node_a node_b)"
    by (simp_all add: v)
  from l1 l2 c1 c2 ne len rt g ga sr show ?thesis by (intro conjI)
qed

text \<open>C6. \<open>verify_proof\<close> raises \<open>IndexError\<close> on a proof that carries the root of the tree
  and has fewer directions than sibling hashes: here on the empty tree.\<close>

theorem C6_verify_proof_raises:
  "verify_proof MerkleTree_init
     \<lparr>leaf_hash = ''00'', leaf_index = 0, proof_hashes = [''ab''], proof_directions = [],
      root_hash = hash_data ''''\<rparr> = Inl IndexError"
  by (simp add: verify_proof_def get_root_init verify_def)

text \<open>C7. For every reachable tree, \<open>serialize\<close> exports its leaves, leaf hashes and root,
  and \<open>deserialize\<close> of that document succeeds with a tree of the same leaves and the same
  root, in which \<open>get_proof\<close> returns for every leaf a proof of that leaf that verifies.
  With a leaf in the document, \<open>deserialize\<close> itself runs \<open>build_tree\<close> on the lists: the
  tree it returns has the reference root set (and, from two leaves on, the levels cached),
  and \<open>get_root\<close> leaves it as it is; with no leaf it returns the empty tree. It does not
  read \<open>root_hash\<close>: whatever stands there, the result is the same tree.\<close>

theorem C7_round_trip:
  assumes "reachable t"
  shows "(\<exists>doc t1 t2. serialize t = Inr (doc, t1) \<and> deserialize doc = Inr t2
            \<and> doc_leaves doc = Some (leaves t)
            \<and> doc_leaf_hashes doc = Some (map hash_data (leaves t))
            \<and> doc_root_hash doc = Some (spec_root (map hash_data (leaves t)))
            \<and> (\<exists>a. get_root t = Inr (spec_root (map hash_data (leaves t)), a))
            \<and> (\<exists>a. get_root t2 = Inr (spec_root (map hash_data (leaves t)), a))
            \<and> leaves t2 = leaves t \<and> leaf_hashes t2 = map hash_data (leaves t)
            \<and> (leaves t \<noteq> [] \<longrightarrow>
                  build_tree (MerkleTree_init\<lparr>leaves := leaves t,
                                leaf_hashes := map hash_data (leaves t)\<rparr>) =
                    Inr (spec_root (map hash_data (leaves t)), t2)
                  \<and> (\<exists>n. root t2 = Some n \<and> hash n = spec_root (map hash_data (leaves t)))
                  \<and> get_root t2 = Inr (spec_root (map hash_data (leaves t)), t2))
            \<and> (2 \<le> length (leaves t) \<longrightarrow>
                  tree_cache t2 = enumerate 0 (level_decomposition (leaf_nodes t2)))
            \<and> (leaves t = [] \<longrightarrow> t2 = MerkleTree_init)
            \<and> (\<forall>d \<in> set (leaves t).
                  \<exists>k p t3. get_proof t2 d = Inr (Some p, t3)
                        \<and> k < length (leaves t) \<and> leaves t ! k = d
                        \<and> leaf_index p = int k \<and> leaf_hash p = hash_data d
                        \<and> root_hash p = spec_root (map hash_data (leaves t))
                        \<and> verify p = Inr True
                        \<and> (\<exists>t4. verify_proof t3 p = Inr (True, t4)))
            \<and> (\<forall>x. deserialize (doc\<lparr>doc_root_hash := x\<rparr>) = Inr t2))
       \<and> deserialize (d0\<lparr>doc_root_hash := x0\<rparr>) = deserialize d0"
proof -
  from assms have c: "consistent t" by (rule reachable_consistent)
  then have lh: "leaf_hashes t = map hash_data (leaves t)" by (simp add: consistent_def)
  let ?R = "spec_root (map hash_data (leaves t))"
  from serialize_consistent [OF c] obtain info t1 where
    s: "serialize t = Inr (\<lparr>doc_leaves = Some (leaves t),
                  doc_leaf_hashes = Some (map hash_data (leaves t)),
                  doc_root_hash = Some ?R, doc_tree_info = Some info\<rparr>, t1)"
    unfolding lh by blast
  let ?doc = "\<lparr>doc_leaves = Some (leaves t), doc_leaf_hashes = Some (map hash_data (leaves t)),
                  doc_root_hash = Some ?R, doc_tree_info = Some info\<rparr>"
  have "\<exists>t2. deserialize ?doc = Inr t2 \<and> consistent t2 \<and> leaves t2 = leaves t
            \<and> leaf_hashes t2 = map hash_data (leaves t)
            \<and> (leaves t \<noteq> [] \<longrightarrow>
                  build_tree (MerkleTree_init\<lparr>leaves := leaves t,
                                leaf_hashes := map hash_data (leaves t)\<rparr>) = Inr (?R, t2)
                  \<and> root t2 \<noteq> None)
            \<and> (leaves t = [] \<longrightarrow> t2 = MerkleTree_init)"
  proof (cases "leaves t = []")
    case True
    have "deserialize ?doc = Inr MerkleTree_init"
      unfolding True by (simp add: deserialize_empty)
    then show ?thesis using True consistent_init by (simp add: MerkleTree_init_def)
  next
    case False
    from deserialize_built [OF False, of "Some ?R" "Some info"] show ?thesis
      using False by auto
  qed
  then obtain t2 where
    t2: "deserialize ?doc = Inr t2" "consistent t2" "leaves t2 = leaves t"
        "leaf_hashes t2 = map hash_data (leaves t)"
        "leaves t \<noteq> [] \<longrightarrow>
           build_tree (MerkleTree_init\<lparr>leaves := leaves t,
                         leaf_hashes := map hash_data (leaves t)\<rparr>) = Inr (?R, t2)
           \<and> root t2 \<noteq> None"
        "leaves t = [] \<longrightarrow> t2 = MerkleTree_init"
    by blast
  have g: "\<exists>a. get_root t = Inr (?R, a)"
    using get_root_consistent [OF c] unfolding lh by blast
  have g2: "\<exists>a. get_root t2 = Inr (?R, a)"
    using get_root_consistent [OF t2(2)] unfolding t2(4) by blast
  have built: "leaves t \<noteq> [] \<longrightarrow>
                  build_tree (MerkleTree_init\<lparr>leaves := leaves t,
                                leaf_hashes := map hash_data (leaves t)\<rparr>) = Inr (?R, t2)
                  \<and> (\<exists>n. root t2 = Some n \<and> hash n = ?R)
                  \<and> get_root t2 = Inr (?R, t2)"
  proof
    assume ne: "leaves t \<noteq> []"
    with t2(5) have b: "build_tree (MerkleTree_init\<lparr>leaves := leaves t,
                                leaf_hashes := map hash_data (leaves t)\<rparr>) = Inr (?R, t2)"
      and "root t2 \<noteq> None" by blast+
    then obtain n where n: "root t2 = Some n" by blast
    with t2(2) t2(4) have h: "hash n = ?R" by (simp add: consistent_def)
    have "get_root t2 = Inr (?R, t2)" using n h by (simp add: get_root_def)
    with b n h show "build_tree (MerkleTree_init\<lparr>leaves := leaves t,
                                leaf_hashes := map hash_data (leaves t)\<rparr>) = Inr (?R, t2)
                  \<and> (\<exists>n. root t2 = Some n \<and> hash n = ?R)
                  \<and> get_root t2 = Inr (?R, t2)" by blast
  qed
  have cached: "2 \<le> length (leaves t) \<longrightarrow>
                  tree_cache t2 = enumerate 0 (level_decomposition (leaf_nodes t2))"
  proof
    assume two: "2 \<le> length (leaves t)"
    then have "leaves t \<noteq> []" by auto
    with built obtain n where "root t2 = Some n" by blast
    with t2(2) t2(4) two show
      "tree_cache t2 = enumerate 0 (level_decomposition (leaf_nodes t2))"
      by (simp add: consistent_def)
  qed
  have p: "\<forall>d \<in> set (leaves t).
                  \<exists>k p t3. get_proof t2 d = Inr (Some p, t3)
                        \<and> k < length (leaves t) \<and> leaves t ! k = d
                        \<and> leaf_index p = int k \<and> leaf_hash p = hash_data d
                        \<and> root_hash p = ?R
                        \<and> verify p = Inr True
                        \<and> (\<exists>t4. verify_proof t3 p = Inr (True, t4))"
  proof
    fix d assume "d \<in> set (leaves t)"
    then have d: "d \<in> set (leaves t2)" by (simp add: t2(3))
    from get_proof_complete [OF t2(2) d] obtain k p t3 where
      "get_proof t2 d = Inr (Some p, t3)" "k < length (leaves t2)" "leaves t2 ! k = d"
      "leaf_index p = int k" "leaf_hash p = hash_data d"
      "root_hash p = spec_root (map hash_data (leaves t2))"
      "verify p = Inr True" "\<exists>t4. verify_proof t3 p = Inr (True, t4)"
      by blast
    then show "\<exists>k p t3. get_proof t2 d = Inr (Some p, t3)
                        \<and> k < length (leaves t) \<and> leaves t ! k = d
                        \<and> leaf_index p = int k \<and> leaf_hash p = hash_data d
                        \<and> root_hash p = ?R
                        \<and> verify p = Inr True
                        \<and> (\<exists>t4. verify_proof t3 p = Inr (True, t4))"
      unfolding t2(3) by blast
  qed
  have tamper: "\<forall>x. deserialize (?doc\<lparr>doc_root_hash := x\<rparr>) = Inr t2"
  proof
    fix x
    have "deserialize (?doc\<lparr>doc_root_hash := x\<rparr>) = deserialize ?doc"
      by (rule deserialize_ignores_root)
    with t2(1) show "deserialize (?doc\<lparr>doc_root_hash := x\<rparr>) = Inr t2"
      by (simp only:)
  qed
  have fields: "doc_leaves ?doc = Some (leaves t)"
    "doc_leaf_hashes ?doc = Some (map hash_data (leaves t))"
    "doc_root_hash ?doc = Some ?R" by simp_all
  have main: "serialize t = Inr (?doc, t1) \<and> deserialize ?doc = Inr t2
            \<and> doc_leaves ?doc = Some (leaves t)
            \<and> doc_leaf_hashes ?doc = Some (map hash_data (leaves t))
            \<and> doc_root_hash ?doc = Some (spec_root (map hash_data (leaves t)))
            \<and> (\<exists>a. get_root t = Inr (spec_root (map hash_data (leaves t)), a))
            \<and> (\<exists>a. get_root t2 = Inr (spec_root (map hash_data (leaves t)), a))
            \<and> leaves t2 = leaves t \<and> leaf_hashes t2 = map hash_data (leaves t)
            \<and> (leaves t \<noteq> [] \<longrightarrow>
                  build_tree (MerkleTree_init\<lparr>leaves := leaves t,
                                leaf_hashes := map hash_data (leaves t)\<rparr>) =
                    Inr (spec_root (map hash_data (leaves t)), t2)
                  \<and> (\<exists>n. root t2 = Some n \<and> hash n = spec_root (map hash_data (leaves t)))
                  \<and> get_root t2 = Inr (spec_root (map hash_data (leaves t)), t2))
            \<and> (2 \<le> length (leaves t) \<longrightarrow>
                  tree_cache t2 = enumerate 0 (level_decomposition (leaf_nodes t2)))
            \<and> (leaves t = [] \<longrightarrow> t2 = MerkleTree_init)
            \<and> (\<forall>d \<in> set (leaves t).
                  \<exists>k p t3. get_proof t2 d = Inr (Some p, t3)
                        \<and> k < length (leaves t) \<and> leaves t ! k = d
                        \<and> leaf_index p = int k \<and> leaf_hash p = hash_data d
                        \<and> root_hash p = spec_root (map hash_data (leaves t))
                        \<and> verify p = Inr True
                        \<and> (\<exists>t4. verify_proof t3 p = Inr (True, t4)))
            \<and> (\<forall>x. deserialize (?doc\<lparr>doc_root_hash := x\<rparr>) = Inr t2)"
    using s t2(1) fields g g2 t2(3) t2(4) built cached t2(6) p tamper by (intro conjI)
  have "\<exists>doc t1 t2. serialize t = Inr (doc, t1) \<and> deserialize doc = Inr t2
            \<and> doc_leaves doc = Some (leaves t)
            \<and> doc_leaf_hashes doc = Some (map hash_data (leaves t))
            \<and> doc_root_hash doc = Some (spec_root (map hash_data (leaves t)))
            \<and> (\<exists>a. get_root t = Inr (spec_root (map hash_data (leaves t)), a))
            \<and> (\<exists>a. get_root t2 = Inr (spec_root (map hash_data (leaves t)), a))
            \<and> leaves t2 = leaves t \<and> leaf_hashes t2 = map hash_data (leaves t)
            \<and> (leaves t \<noteq> [] \<longrightarrow>
                  build_tree (MerkleTree_init\<lparr>leaves := leaves t,
                                leaf_hashes := map hash_data (leaves t)\<rparr>) =
                    Inr (spec_root (map hash_data (leaves t)), t2)
                  \<and> (\<exists>n. root t2 = Some n \<and> hash n = spec_root (map hash_data (leaves t)))
                  \<and> get_root t2 = Inr (spec_root (map hash_data (leaves t)), t2))
            \<and> (2 \<le> length (leaves t) \<longrightarrow>
                  tree_cache t2 = enumerate 0 (level_decomposition (leaf_nodes t2)))
            \<and> (leaves t = [] \<longrightarrow> t2 = MerkleTree_init)
            \<and> (\<forall>d \<in> set (leaves t).
                  \<exists>k p t3. get_proof t2 d = Inr (Some p, t3)
                        \<and> k < length (leaves t) \<and> leaves t ! k = d
                        \<and> leaf_index p = int k \<and> leaf_hash p = hash_data d
                        \<and> root_hash p = spec_root (map hash_data (leaves t))
                        \<and> verify p = Inr True
                        \<and> (\<exists>t4. verify_proof t3 p = Inr (True, t4)))
            \<and> (\<forall>x. deserialize (doc\<lparr>doc_root_hash := x\<rparr>) = Inr t2)"
    by (rule exI [of _ ?doc], rule exI [of _ t1], rule exI [of _ t2]) (rule main)
  moreover have "deserialize (d0\<lparr>doc_root_hash := x0\<rparr>) = deserialize d0"
    by (rule deserialize_ignores_root)
  ultimately show ?thesis by (rule conjI)
qed

theorem C7_round_trip_witness:
  "reachable (tree_of [''data1'', ''data2'', ''data3''])
   \<and> (\<exists>doc t1 t2. serialize (tree_of [''data1'', ''data2'', ''data3'']) = Inr (doc, t1)
         \<and> doc_leaves doc = Some [''data1'', ''data2'', ''data3'']
         \<and> deserialize (doc\<lparr>doc_root_hash := Some ''00''\<rparr>) = Inr t2
         \<and> (\<exists>n. root t2 = Some n \<and>
                hash n = hash_data (hash_data (hash_data ''data1'' @ hash_data ''data2'')
                                    @ hash_data (hash_data ''data3'' @ hash_data ''data3'')))
         \<and> tree_cache t2 = enumerate 0 (level_decomposition (leaf_nodes t2))
         \<and> get_root t2 =
              Inr (hash_data (hash_data (hash_data ''data1'' @ hash_data ''data2'')
                              @ hash_data (hash_data ''data3'' @ hash_data ''data3'')), t2)
         \<and> (\<exists>p t3. get_proof t2 ''data3'' = Inr (Some p, t3)
                \<and> leaf_hash p = hash_data ''data3'' \<and> verify p = Inr True))
   \<and> reachable (tree_of [])
   \<and> (\<exists>doc t1. serialize (tree_of []) = Inr (doc, t1)
         \<and> deserialize doc = Inr MerkleTree_init)"
proof -
  let ?t = "tree_of [''data1'', ''data2'', ''data3'']"
  let ?H = "hash_data (hash_data (hash_data ''data1'' @ hash_data ''data2'')
                       @ hash_data (hash_data ''data3'' @ hash_data ''data3''))"
  have r: "reachable ?t" by (rule reachable_tree_of)
  have r0: "reachable (tree_of [])" by (rule reachable_tree_of)
  have s: "spec_root (map hash_data (leaves ?t)) = ?H"
    by (simp add: spec_root_many spec_root_single)
  have ne: "leaves ?t \<noteq> []" and two: "2 \<le> length (leaves ?t)"
    and m: "''data3'' \<in> set (leaves ?t)" by simp_all
  from C7_round_trip [OF r] obtain doc t1 t2 where
    f: "serialize ?t = Inr (doc, t1)"
       "doc_leaves doc = Some (leaves ?t)"
       "leaves ?t \<noteq> [] \<longrightarrow>
          build_tree (MerkleTree_init\<lparr>leaves := leaves ?t,
                        leaf_hashes := map hash_data (leaves ?t)\<rparr>) =
            Inr (spec_root (map hash_data (leaves ?t)), t2)
          \<and> (\<exists>n. root t2 = Some n \<and> hash n = spec_root (map hash_data (leaves ?t)))
          \<and> get_root t2 = Inr (spec_root (map hash_data (leaves ?t)), t2)"
       "2 \<le> length (leaves ?t) \<longrightarrow>
          tree_cache t2 = enumerate 0 (level_decomposition (leaf_nodes t2))"
       "\<forall>d \<in> set (leaves ?t).
          \<exists>k p t3. get_proof t2 d = Inr (Some p, t3)
                \<and> k < length (leaves ?t) \<and> leaves ?t ! k = d
                \<and> leaf_index p = int k \<and> leaf_hash p = hash_data d
                \<and> root_hash p = spec_root (map hash_data (leaves ?t))
                \<and> verify p = Inr True
                \<and> (\<exists>t4. verify_proof t3 p = Inr (True, t4))"
       "\<forall>x. deserialize (doc\<lparr>doc_root_hash := x\<rparr>) = Inr t2"
    by blast
  from f(3) ne have a: "\<exists>n. root t2 = Some n \<and> hash n = ?H"
    and b: "get_root t2 = Inr (?H, t2)" unfolding s by blast+
  from f(4) two have c: "tree_cache t2 = enumerate 0 (level_decomposition (leaf_nodes t2))"
    by blast
  from f(5) m have d: "\<exists>p t3. get_proof t2 ''data3'' = Inr (Some p, t3)
                \<and> leaf_hash p = hash_data ''data3'' \<and> verify p = Inr True"
    by blast
  from f(6) have e: "deserialize (doc\<lparr>doc_root_hash := Some ''00''\<rparr>) = Inr t2" by blast
  from f(2) have l: "doc_leaves doc = Some [''data1'', ''data2'', ''data3'']" by simp
  have three: "\<exists>doc t1 t2. serialize ?t = Inr (doc, t1)
         \<and> doc_leaves doc = Some [''data1'', ''data2'', ''data3'']
         \<and> deserialize (doc\<lparr>doc_root_hash := Some ''00''\<rparr>) = Inr t2
         \<and> (\<exists>n. root t2 = Some n \<and> hash n = ?H)
         \<and> tree_cache t2 = enumerate 0 (level_decomposition (leaf_nodes t2))
         \<and> get_root t2 = Inr (?H, t2)
         \<and> (\<exists>p t3. get_proof t2 ''data3'' = Inr (Some p, t3)
                \<and> leaf_hash p = hash_data ''data3'' \<and> verify p = Inr True)"
    using f(1) l e a c b d
    by (intro exI [of _ doc] exI [of _ t1] exI [of _ t2] conjI)
  from C7_round_trip [OF r0] obtain doc0 t10 t20 where
    "serialize (tree_of []) = Inr (doc0, t10)" "deserialize doc0 = Inr t20"
    "leaves (tree_of []) = [] \<longrightarrow> t20 = MerkleTree_init"
    by blast
  then have zero: "\<exists>doc t1. serialize (tree_of []) = Inr (doc, t1)
         \<and> deserialize doc = Inr MerkleTree_init"
    by auto
  from r three r0 zero show ?thesis by (intro conjI)
qed



text \<open>C9. On every reachable tree \<open>get_proof\<close> returns \<open>None\<close> for data that is no leaf,
  and for a leaf the proof of its first occurrence; \<open>get_proof_by_index\<close> returns \<open>None\<close>
  for an index below 0 or not below the leaf count, a proof otherwise.\<close>

theorem C9_lookup:
  assumes "reachable t"
  shows "(d \<notin> set (leaves t) \<longrightarrow> get_proof t d = Inr (None, t))
       \<and> (d \<in> set (leaves t) \<longrightarrow>
            (\<exists>k p t'. get_proof t d = Inr (Some p, t') \<and> leaf_index p = int k
               \<and> k < length (leaves t) \<and> leaves t ! k = d \<and> (\<forall>j<k. leaves t ! j \<noteq> d)
               \<and> get_proof_by_index t (int k) = Inr (Some p, t')))
       \<and> (i < 0 \<or> int (length (leaf_hashes t)) \<le> i \<longrightarrow> get_proof_by_index t i = Inr (None, t))
       \<and> (0 \<le> i \<and> i < int (length (leaf_hashes t)) \<longrightarrow>
            (\<exists>p t'. get_proof_by_index t i = Inr (Some p, t')))
       \<and> get_proof_by_index t (- 1) = Inr (None, t)
       \<and> get_proof_by_index t (int (length (leaf_hashes t))) = Inr (None, t)
       \<and> length (leaf_hashes t) = length (leaves t)"
proof -
  from assms have c: "consistent t" by (rule reachable_consistent)
  have a: "d \<notin> set (leaves t) \<longrightarrow> get_proof t d = Inr (None, t)"
    using index_of_None [of "leaves t" d] by (auto simp: get_proof_def split: option.splits)
  have b: "d \<in> set (leaves t) \<longrightarrow>
            (\<exists>k p t'. get_proof t d = Inr (Some p, t') \<and> leaf_index p = int k
               \<and> k < length (leaves t) \<and> leaves t ! k = d \<and> (\<forall>j<k. leaves t ! j \<noteq> d)
               \<and> get_proof_by_index t (int k) = Inr (Some p, t'))"
  proof
    assume "d \<in> set (leaves t)"
    from get_proof_in [OF c this] obtain k t' where
      "k < length (leaves t)" "leaves t ! k = d" "\<forall>j<k. leaves t ! j \<noteq> d"
      "get_proof t d = Inr (Some (proof_of t (int k)), t')"
      "get_proof_by_index t (int k) = Inr (Some (proof_of t (int k)), t')" by blast
    moreover have "leaf_index (proof_of t (int k)) = int k" by (simp add: proof_of_def)
    ultimately show "\<exists>k p t'. get_proof t d = Inr (Some p, t') \<and> leaf_index p = int k
               \<and> k < length (leaves t) \<and> leaves t ! k = d \<and> (\<forall>j<k. leaves t ! j \<noteq> d)
               \<and> get_proof_by_index t (int k) = Inr (Some p, t')" by blast
  qed
  have e: "0 \<le> i \<and> i < int (length (leaf_hashes t)) \<longrightarrow>
            (\<exists>p t'. get_proof_by_index t i = Inr (Some p, t'))"
    using get_proof_by_index_consistent [OF c, of i] by blast
  have f: "length (leaf_hashes t) = length (leaves t)"
    using c by (simp add: consistent_def)
  show ?thesis
    using a b e f by (simp add: get_proof_by_index_out)
qed

theorem C9_lookup_witness:
  "reachable (tree_of [''e1'', ''e2'', ''e1''])
   \<and> ''e1'' \<in> set (leaves (tree_of [''e1'', ''e2'', ''e1'']))
   \<and> (\<exists>p t'. get_proof (tree_of [''e1'', ''e2'', ''e1'']) ''e1'' = Inr (Some p, t')
         \<and> leaf_index p = 0)
   \<and> get_proof (tree_of [''e1'', ''e2'', ''e1'']) ''e3'' =
       Inr (None, tree_of [''e1'', ''e2'', ''e1''])
   \<and> get_proof_by_index (tree_of [''e1'', ''e2'', ''e1'']) 3 =
       Inr (None, tree_of [''e1'', ''e2'', ''e1''])
   \<and> (\<exists>p t'. get_proof_by_index (tree_of [''e1'', ''e2'', ''e1'']) 1 = Inr (Some p, t'))"
proof -
  let ?t = "tree_of [''e1'', ''e2'', ''e1'']"
  have r: "reachable ?t" by (rule reachable_tree_of)
  from C9_lookup [OF r, of "''e1''" 3] obtain k p t' where
    k: "get_proof ?t ''e1'' = Inr (Some p, t')" "leaf_index p = int k"
       "\<forall>j<k. leaves ?t ! j \<noteq> ''e1''"
    by auto
  have "k = 0"
  proof (rule ccontr)
    assume "k \<noteq> 0"
    then have "0 < k" by simp
    with k(3) have "leaves ?t ! 0 \<noteq> ''e1''" by blast
    then show False by simp
  qed
  with k have 1: "\<exists>p t'. get_proof ?t ''e1'' = Inr (Some p, t') \<and> leaf_index p = 0"
    by auto
  from C9_lookup [OF r, of "''e3''" 3] have
    2: "get_proof ?t ''e3'' = Inr (None, ?t)" and 3: "get_proof_by_index ?t 3 = Inr (None, ?t)"
    by simp_all
  from C9_lookup [OF r, of "''e3''" 1] have
    4: "\<exists>p t'. get_proof_by_index ?t 1 = Inr (Some p, t')"
    by simp
  from r 1 2 3 4 show ?thesis by simp
qed

text \<open>C10. The method \<open>MerkleTree.verify_evidence_inclusion\<close> never returns true: when
  the evidence yields a hash that is not a leaf hash it returns false, and when the hash
  is a leaf hash it raises \<open>AttributeError\<close> at \<open>self.generate_proof\<close>.\<close>

theorem C10_never_true:
  "MerkleTree_verify_evidence_inclusion t ev \<noteq> Inr True
   \<and> (get_hash ev = Inr h \<longrightarrow> h \<notin> set (leaf_hashes t) \<longrightarrow>
        MerkleTree_verify_evidence_inclusion t ev = Inr False)
   \<and> (get_hash ev = Inr h \<longrightarrow> h \<in> set (leaf_hashes t) \<longrightarrow>
        MerkleTree_verify_evidence_inclusion t ev = Inl AttributeError)"
  by (auto simp: MerkleTree_verify_evidence_inclusion_def generate_proof_def index_of_None
           split: sum.splits option.splits)

theorem C10_never_true_witness:
  "get_hash (HashedEvidence (hash_data ''e1'')) = Inr (hash_data ''e1'')
   \<and> hash_data ''e1'' \<in> set (leaf_hashes (snd (add_leaf MerkleTree_init ''e1'')))
   \<and> MerkleTree_verify_evidence_inclusion (snd (add_leaf MerkleTree_init ''e1''))
        (HashedEvidence (hash_data ''e1'')) = Inl AttributeError
   \<and> hash_data ''e1'' \<notin> set (leaf_hashes MerkleTree_init)
   \<and> MerkleTree_verify_evidence_inclusion MerkleTree_init
        (HashedEvidence (hash_data ''e1'')) = Inr False"
proof -
  have g: "get_hash (HashedEvidence (hash_data ''e1'')) = Inr (hash_data ''e1'')" by simp
  have m: "hash_data ''e1'' \<in> set (leaf_hashes (snd (add_leaf MerkleTree_init ''e1'')))"
    by (simp add: add_leaf_def Let_def)
  have n: "hash_data ''e1'' \<notin> set (leaf_hashes MerkleTree_init)"
    by (simp add: MerkleTree_init_def)
  from C10_never_true [of "snd (add_leaf MerkleTree_init ''e1'')"
          "HashedEvidence (hash_data ''e1'')" "hash_data ''e1''"] g m
  have a: "MerkleTree_verify_evidence_inclusion (snd (add_leaf MerkleTree_init ''e1''))
        (HashedEvidence (hash_data ''e1'')) = Inl AttributeError" by blast
  from C10_never_true [of MerkleTree_init
          "HashedEvidence (hash_data ''e1'')" "hash_data ''e1''"] g n
  have b: "MerkleTree_verify_evidence_inclusion MerkleTree_init
        (HashedEvidence (hash_data ''e1'')) = Inr False" by blast
  from g m a n b show ?thesis by (intro conjI)
qed

end
